theory Spec2Isabelle
  imports Main
begin

section \<open>Data model\<close>

text \<open>
  The notification engine of the vault server keeps one Firestore collection per channel
  (\<open>scheduledPushNotifications\<close>, \<open>scheduledEmailNotifications\<close>,
  \<open>scheduledSMSNotifications\<close>). The three scheduler modules are copies of one design that
  differ in the contact field and in the sender, so the document type is polymorphic in the
  contact and the shared code is written once, parameterised by what differs.

  Instants are milliseconds since the epoch (what a JavaScript \<open>Date\<close> holds). Every
  clock reading (\<open>new Date()\<close>, \<open>Timestamp.now()\<close>, a server timestamp) is an explicit
  argument. Faults of the store itself (a rejected Firestore call) are not modelled.
\<close>

datatype status = Scheduled | Processing | Sent | Failed | Cancelled

record 'c notification =
  userId :: string
  itemId :: string
  itemName :: string
  category :: string
  notificationType :: string
  scheduledDate :: int
  userContact :: 'c
  reminderDaysBefore :: nat
  status :: status
  createdAt :: int
  attempts :: nat
  maxAttempts :: nat
  processedAt :: "int option"
  sentAt :: "int option"
  failedAt :: "int option"
  cancelledAt :: "int option"
  lastAttempt :: "int option"
  lastError :: "string option"

text \<open>The argument of the three \<open>schedule...Notification\<close> functions
  (\<open>EmailNotificationData\<close> and its siblings); \<open>None\<close> is a missing field.\<close>

record 'c notificationData =
  userId_d :: string
  itemId_d :: string
  itemName_d :: string
  category_d :: string
  notificationType_d :: string
  scheduledDate_d :: "int option"
  userContact_d :: 'c
  reminderDaysBefore_d :: "nat option"

text \<open>A collection: its documents in store order, each under its document id, and the
  supply of fresh ids (Firestore assigns an id that no document had before).\<close>

record 'c collection =
  docs :: "(nat \<times> 'c notification) list"
  nextId :: nat

datatype error = Error string | HttpsError string string

record ProcessingResult =
  processed :: nat
  successful :: nat
  failed :: nat
  errors :: "string list"

text \<open>JavaScript's \<open>a || d\<close> on numbers: \<open>0\<close> is falsy.\<close>

definition js_or :: "nat \<Rightarrow> nat \<Rightarrow> nat" where
  "js_or a d = (if a = 0 then d else a)"

section \<open>Scheduler (write path)\<close>

text \<open>\<open>validateNotificationData\<close>: the three modules share the first five checks and end
  with their own contact check (\<open>noContact\<close>, with its message).\<close>

definition validateNotificationData ::
  "('c \<Rightarrow> bool) \<Rightarrow> string \<Rightarrow> int \<Rightarrow> 'c notificationData \<Rightarrow> error option" where
  "validateNotificationData noContact contactMsg now data =
     (if userId_d data = [] then Some (Error ''userId is required'')
      else if itemId_d data = [] then Some (Error ''itemId is required'')
      else if itemName_d data = [] then Some (Error ''itemName is required'')
      else case scheduledDate_d data of
        None \<Rightarrow> Some (Error ''scheduledDate is required'')
      | Some t \<Rightarrow>
          if t \<le> now then Some (Error ''scheduledDate must be in the future'')
          else if noContact (userContact_d data) then Some (Error contactMsg)
          else None)"

definition noEmail :: "string \<Rightarrow> bool" where
  "noEmail e = (e = [])"

definition noPhone :: "string \<Rightarrow> bool" where
  "noPhone p = (p = [])"

definition noTokens :: "string list option \<Rightarrow> bool" where
  "noTokens ts = (case ts of None \<Rightarrow> True | Some l \<Rightarrow> length l = 0)"

definition notificationDoc :: "int \<Rightarrow> int \<Rightarrow> 'c notificationData \<Rightarrow> 'c notification" where
  "notificationDoc t now data =
     \<lparr> userId = userId_d data, itemId = itemId_d data, itemName = itemName_d data,
       category = category_d data, notificationType = notificationType_d data,
       scheduledDate = t, userContact = userContact_d data,
       reminderDaysBefore = js_or (case reminderDaysBefore_d data of None \<Rightarrow> 0 | Some k \<Rightarrow> k) 7,
       status = Scheduled, createdAt = now, attempts = 0, maxAttempts = 3,
       processedAt = None, sentAt = None, failedAt = None, cancelledAt = None,
       lastAttempt = None, lastError = None \<rparr>"

definition add :: "'c notification \<Rightarrow> 'c collection \<Rightarrow> nat \<times> 'c collection" where
  "add d c = (nextId c, c\<lparr>docs := docs c @ [(nextId c, d)], nextId := Suc (nextId c)\<rparr>)"

text \<open>\<open>schedule...Notification\<close>: validate, then add one document. The result is the thrown
  error or the new document's id, with the collection after the call.\<close>

definition scheduleNotification ::
  "('c \<Rightarrow> bool) \<Rightarrow> string \<Rightarrow> int \<Rightarrow> 'c notificationData \<Rightarrow> 'c collection
     \<Rightarrow> (error + nat) \<times> 'c collection" where
  "scheduleNotification noContact contactMsg now data c =
     (case validateNotificationData noContact contactMsg now data of
        Some e \<Rightarrow> (Inl e, c)
      | None \<Rightarrow>
          (case scheduledDate_d data of
             None \<Rightarrow> (Inl (Error ''scheduledDate is required''), c)
           | Some t \<Rightarrow> (case add (notificationDoc t now data) c of (i, c') \<Rightarrow> (Inr i, c'))))"

definition scheduleEmailNotification ::
  "int \<Rightarrow> string notificationData \<Rightarrow> string collection \<Rightarrow> (error + nat) \<times> string collection" where
  "scheduleEmailNotification = scheduleNotification noEmail ''Email is required''"

definition scheduleSMSNotification ::
  "int \<Rightarrow> string notificationData \<Rightarrow> string collection \<Rightarrow> (error + nat) \<times> string collection" where
  "scheduleSMSNotification = scheduleNotification noPhone ''Phone number is required''"

definition schedulePushNotification ::
  "int \<Rightarrow> string list option notificationData \<Rightarrow> string list option collection
     \<Rightarrow> (error + nat) \<times> string list option collection" where
  "schedulePushNotification = scheduleNotification noTokens ''At least one FCM token is required''"

section \<open>Dispatcher (read and execute path)\<close>

text \<open>The due-work query: \<open>where status == 'scheduled'\<close>, \<open>where scheduledDate <= now\<close>,
  \<open>limit(100)\<close>. The code asks for no order; the model returns the first hundred matches
  in store order.\<close>

definition dueQuery :: "int \<Rightarrow> (nat \<times> 'c notification) list \<Rightarrow> (nat \<times> 'c notification) list" where
  "dueQuery now ds =
     take 100 (filter (\<lambda>(i, d). status d = Scheduled \<and> scheduledDate d \<le> now) ds)"

text \<open>\<open>doc(id).update(fields)\<close>: the fields are merged into the document with that id.\<close>

definition updateDoc ::
  "nat \<Rightarrow> ('c notification \<Rightarrow> 'c notification) \<Rightarrow> (nat \<times> 'c notification) list
     \<Rightarrow> (nat \<times> 'c notification) list" where
  "updateDoc i f ds = map (\<lambda>(j, d). if j = i then (j, f d) else (j, d)) ds"

definition markProcessing :: "int \<Rightarrow> 'c notification \<Rightarrow> 'c notification" where
  "markProcessing t d = d\<lparr>status := Processing, processedAt := Some t\<rparr>"

definition markSent :: "int \<Rightarrow> 'c notification \<Rightarrow> 'c notification" where
  "markSent t d = d\<lparr>status := Sent, sentAt := Some t, lastAttempt := Some t\<rparr>"

definition markFailed :: "int \<Rightarrow> nat \<Rightarrow> string \<Rightarrow> 'c notification \<Rightarrow> 'c notification" where
  "markFailed t k msg d =
     d\<lparr>status := Failed, attempts := k, lastError := Some msg, failedAt := Some t,
       lastAttempt := Some t\<rparr>"

text \<open>\<open>retryDate.setMinutes(retryDate.getMinutes() + Math.pow(2, attempts) * 5)\<close>,
  a minute being 60000 ms.\<close>

definition retryDate :: "int \<Rightarrow> nat \<Rightarrow> int" where
  "retryDate t k = t + int (2 ^ k * 5) * 60000"

definition markRetry :: "int \<Rightarrow> nat \<Rightarrow> string \<Rightarrow> 'c notification \<Rightarrow> 'c notification" where
  "markRetry t k msg d =
     d\<lparr>status := Scheduled, attempts := k, lastError := Some msg,
       scheduledDate := retryDate t k, lastAttempt := Some t\<rparr>"

text \<open>The body of the loop over the claimed notifications. \<open>send n\<close> is \<open>None\<close> when the
  channel's send function returns and \<open>Some msg\<close> when it throws an \<open>Error\<close> with that
  message; \<open>t\<close> is the instant at which the outcome of this notification is written. The
  attempt count and the limit are read from the snapshot \<open>n\<close> taken by the query, the update
  goes to the stored document.\<close>

definition processNotification ::
  "('c notification \<Rightarrow> string option) \<Rightarrow> int \<Rightarrow> nat \<times> 'c notification
     \<Rightarrow> (nat \<times> 'c notification) list \<times> ProcessingResult
     \<Rightarrow> (nat \<times> 'c notification) list \<times> ProcessingResult" where
  "processNotification send t p s =
     (case p of (i, n) \<Rightarrow> case s of (ds, r) \<Rightarrow>
        (case send n of
           None \<Rightarrow> (updateDoc i (markSent t) ds, r\<lparr>successful := successful r + 1\<rparr>)
         | Some errorMessage \<Rightarrow>
             (let k = js_or (attempts n) 0 + 1;
                  m = js_or (maxAttempts n) 3;
                  r' = r\<lparr>failed := failed r + 1,
                         errors := errors r @ [itemName n @ '': '' @ errorMessage]\<rparr>
              in if k \<ge> m then (updateDoc i (markFailed t k errorMessage) ds, r')
                 else (updateDoc i (markRetry t k errorMessage) ds, r'))))"

fun processLoop ::
  "('c notification \<Rightarrow> string option) \<Rightarrow> (nat \<Rightarrow> int) \<Rightarrow> (nat \<times> 'c notification) list
     \<Rightarrow> (nat \<times> 'c notification) list \<times> ProcessingResult
     \<Rightarrow> (nat \<times> 'c notification) list \<times> ProcessingResult" where
  "processLoop send clk [] s = s"
| "processLoop send clk (p # ps) s = processLoop send clk ps (processNotification send (clk (fst p)) p s)"

text \<open>The batch that claims every selected document before any send.\<close>

fun claimBatch ::
  "int \<Rightarrow> (nat \<times> 'c notification) list \<Rightarrow> (nat \<times> 'c notification) list
     \<Rightarrow> (nat \<times> 'c notification) list" where
  "claimBatch t [] ds = ds"
| "claimBatch t (p # ps) ds = claimBatch t ps (updateDoc (fst p) (markProcessing t) ds)"

text \<open>\<open>processScheduled...Notifications\<close>. \<open>now\<close> is the instant of the query and of the
  claiming batch, \<open>clk i\<close> the instant at which the outcome of document \<open>i\<close> is written.\<close>

definition processScheduledNotifications ::
  "('c notification \<Rightarrow> string option) \<Rightarrow> int \<Rightarrow> (nat \<Rightarrow> int) \<Rightarrow> 'c collection
     \<Rightarrow> 'c collection \<times> ProcessingResult" where
  "processScheduledNotifications send now clk c =
     (let result = \<lparr>processed = 0, successful = 0, failed = 0, errors = []\<rparr>;
          snapshot = dueQuery now (docs c)
      in if snapshot = [] then (c, result)
         else (case processLoop send clk snapshot
                      (claimBatch now snapshot (docs c), result\<lparr>processed := length snapshot\<rparr>) of
                 (ds, r) \<Rightarrow> (c\<lparr>docs := ds\<rparr>, r)))"

section \<open>Channel senders\<close>

text \<open>A settled promise: resolved with a value, or rejected with an error whose
  \<open>message\<close> is the string.\<close>

datatype 'a promise = Resolved 'a | Rejected string

text \<open>The call a send function makes on its channel service: the method chosen by the
  \<open>switch\<close> on the category, with its arguments (contact address first). The default
  branch is \<open>sendItemReminderPush\<close>, \<open>sendItemReminderSMS\<close> or, for email,
  \<open>sendEmail\<close> with a subject and body composed from the same three values.\<close>

datatype call =
    SubscriptionReminder string string int nat
  | LicenseExpirationReminder string string int nat
  | WarrantyExpirationReminder string string int nat
  | ItemReminder string string string int

definition reminderCall :: "string \<Rightarrow> 'c notification \<Rightarrow> call" where
  "reminderCall to n =
     (if category n = ''subscription''
        then SubscriptionReminder to (itemName n) (scheduledDate n) (reminderDaysBefore n)
      else if category n = ''software''
        then LicenseExpirationReminder to (itemName n) (scheduledDate n) (reminderDaysBefore n)
      else if category n = ''hardware''
        then WarrantyExpirationReminder to (itemName n) (scheduledDate n) (reminderDaysBefore n)
      else ItemReminder to (itemName n) (notificationType n) (scheduledDate n))"

fun callTo :: "call \<Rightarrow> string" where
  "callTo (SubscriptionReminder to _ _ _) = to"
| "callTo (LicenseExpirationReminder to _ _ _) = to"
| "callTo (WarrantyExpirationReminder to _ _ _) = to"
| "callTo (ItemReminder to _ _ _) = to"

text \<open>\<open>sendEmailNotification\<close>. \<open>EmailService\<close> is the email service, a parameter: its
  module is outside the engine.\<close>

definition sendEmailNotification ::
  "(call \<Rightarrow> bool promise) \<Rightarrow> string notification \<Rightarrow> string option" where
  "sendEmailNotification EmailService n =
     (if userContact n = [] then None
      else case EmailService (reminderCall (userContact n) n) of
        Rejected m \<Rightarrow> Some (''Email: '' @ m)
      | Resolved result \<Rightarrow>
          if \<not> result
          then Some (''Email failed for '' @ itemName n @ '': No response from email service'')
          else None)"

text \<open>\<open>SMSService.isValidPhoneNumber\<close>: the regular expression
  \<open>/^\+[1-9]\d{1,14}$/\<close>.\<close>

definition isValidPhoneNumber :: "string \<Rightarrow> bool" where
  "isValidPhoneNumber phoneNumber =
     (case phoneNumber of
        c0 # c1 # rest \<Rightarrow>
          c0 = CHR ''+'' \<and> List.member ''123456789'' c1 \<and>
          1 \<le> length rest \<and> length rest \<le> 14 \<and> list_all (List.member ''0123456789'') rest
      | _ \<Rightarrow> False)"

text \<open>\<open>SMSService.sendSMS\<close>: \<open>twilio\<close> tells whether \<open>client.messages.create\<close> returns
  (\<open>True\<close>) or throws; the method catches every error and answers \<open>false\<close>.\<close>

definition sendSMS :: "(call \<Rightarrow> bool) \<Rightarrow> call \<Rightarrow> bool" where
  "sendSMS twilio options =
     (if \<not> isValidPhoneNumber (callTo options) then False
      else if twilio options then True else False)"

definition SMSService :: "(call \<Rightarrow> bool) \<Rightarrow> call \<Rightarrow> bool promise" where
  "SMSService twilio options = Resolved (sendSMS twilio options)"

definition sendSMSNotification ::
  "(call \<Rightarrow> bool promise) \<Rightarrow> string notification \<Rightarrow> string option" where
  "sendSMSNotification service n =
     (if userContact n = [] then None
      else case service (reminderCall (userContact n) n) of
        Rejected m \<Rightarrow> Some (''SMS: '' @ m)
      | Resolved result \<Rightarrow>
          if \<not> result
          then Some (''SMS failed for '' @ itemName n @ '': No response from SMS service'')
          else None)"

text \<open>\<open>PushNotificationService.sendPushNotification\<close>: \<open>fcm\<close> tells whether
  \<open>admin.messaging().send\<close> returns (\<open>True\<close>) or throws; the method catches every error
  and answers \<open>false\<close>, so its promise never rejects.\<close>

definition PushNotificationService :: "(call \<Rightarrow> bool) \<Rightarrow> call \<Rightarrow> bool promise" where
  "PushNotificationService fcm options = Resolved (if fcm options then True else False)"

fun join :: "string list \<Rightarrow> string" where
  "join [] = []"
| "join [x] = x"
| "join (x # y # ys) = x @ '', '' @ join (y # ys)"

fun fulfilled :: "'a promise \<Rightarrow> bool" where
  "fulfilled (Resolved _) = True"
| "fulfilled (Rejected _) = False"

fun reasons :: "'a promise list \<Rightarrow> string list" where
  "reasons [] = []"
| "reasons (Resolved _ # rs) = reasons rs"
| "reasons (Rejected m # rs) = m # reasons rs"

text \<open>\<open>sendPushNotification\<close> of the push scheduler: one promise per token, settled
  together by \<open>Promise.allSettled\<close>.\<close>

definition sendPushNotification ::
  "(call \<Rightarrow> bool promise) \<Rightarrow> string list option notification \<Rightarrow> string option" where
  "sendPushNotification service n =
     (case userContact n of
        None \<Rightarrow> None
      | Some fcmTokens \<Rightarrow>
          if length fcmTokens = 0 then None
          else
            (let results = map (\<lambda>token. case service (reminderCall token n) of
                                   Rejected m \<Rightarrow> Rejected (''Push: '' @ m)
                                 | Resolved b \<Rightarrow> Resolved b) fcmTokens;
                 hasSuccess = list_ex fulfilled results;
                 errs = reasons results
             in if \<not> hasSuccess \<and> length errs > 0
                then Some (''All push notifications failed: '' @ join errs)
                else None))"

section \<open>Cancellation\<close>

text \<open>\<open>cancel...Notifications\<close>: the optional \<open>userId\<close> filters only when truthy.\<close>

definition cancelMatch :: "string \<Rightarrow> string option \<Rightarrow> 'c notification \<Rightarrow> bool" where
  "cancelMatch iid uid d =
     (itemId d = iid \<and> status d = Scheduled \<and>
      (case uid of None \<Rightarrow> True | Some u \<Rightarrow> if u = [] then True else userId d = u))"

definition markCancelled :: "int \<Rightarrow> 'c notification \<Rightarrow> 'c notification" where
  "markCancelled t d = d\<lparr>status := Cancelled, cancelledAt := Some t\<rparr>"

fun cancelBatch ::
  "int \<Rightarrow> (nat \<times> 'c notification) list \<Rightarrow> (nat \<times> 'c notification) list
     \<Rightarrow> (nat \<times> 'c notification) list" where
  "cancelBatch t [] ds = ds"
| "cancelBatch t (p # ps) ds = cancelBatch t ps (updateDoc (fst p) (markCancelled t) ds)"

definition cancelChannelNotifications ::
  "string \<Rightarrow> string option \<Rightarrow> int \<Rightarrow> 'c collection \<Rightarrow> nat \<times> 'c collection" where
  "cancelChannelNotifications iid uid t c =
     (let snapshot = filter (\<lambda>(i, d). cancelMatch iid uid d) (docs c)
      in if snapshot = [] then (0, c)
         else (length snapshot, c\<lparr>docs := cancelBatch t snapshot (docs c)\<rparr>))"

section \<open>Retention sweeper\<close>

definition cleanupMatch :: "int \<Rightarrow> 'c notification \<Rightarrow> bool" where
  "cleanupMatch cutoff d =
     ((status d = Sent \<or> status d = Failed) \<and>
      (case processedAt d of None \<Rightarrow> False | Some t \<Rightarrow> t < cutoff))"

definition deleteDoc :: "nat \<Rightarrow> (nat \<times> 'c notification) list \<Rightarrow> (nat \<times> 'c notification) list" where
  "deleteDoc i ds = filter (\<lambda>(j, d). j \<noteq> i) ds"

fun deleteBatch ::
  "(nat \<times> 'c notification) list \<Rightarrow> (nat \<times> 'c notification) list \<Rightarrow> (nat \<times> 'c notification) list" where
  "deleteBatch [] ds = ds"
| "deleteBatch (p # ps) ds = deleteBatch ps (deleteDoc (fst p) ds)"

text \<open>The body of the loop over the three collections in \<open>cleanupOldNotifications\<close>: one
  query with \<open>limit(500)\<close>, one batch of deletes. The second component is \<open>count\<close>.\<close>

definition cleanupCollection :: "int \<Rightarrow> 'c collection \<Rightarrow> 'c collection \<times> nat" where
  "cleanupCollection cutoff c =
     (let snapshot = take 500 (filter (\<lambda>(i, d). cleanupMatch cutoff d) (docs c))
      in if snapshot = [] then (c, 0)
         else (c\<lparr>docs := deleteBatch snapshot (docs c)\<rparr>, length snapshot))"

text \<open>\<open>cutoffDate.setDate(cutoffDate.getDate() - 30)\<close>, the function running in UTC.\<close>

definition cutoffDate :: "int \<Rightarrow> int" where
  "cutoffDate now = now - 30 * 86400000"

section \<open>The store and the callable entry points\<close>

record store =
  scheduledPushNotifications :: "string list option collection"
  scheduledEmailNotifications :: "string collection"
  scheduledSMSNotifications :: "string collection"

definition cleanupOldNotifications :: "int \<Rightarrow> store \<Rightarrow> store \<times> nat" where
  "cleanupOldNotifications now st =
     (case cleanupCollection (cutoffDate now) (scheduledPushNotifications st) of (cp, kp) \<Rightarrow>
      case cleanupCollection (cutoffDate now) (scheduledEmailNotifications st) of (ce, ke) \<Rightarrow>
      case cleanupCollection (cutoffDate now) (scheduledSMSNotifications st) of (cs, ks) \<Rightarrow>
        (st\<lparr>scheduledPushNotifications := cp, scheduledEmailNotifications := ce,
            scheduledSMSNotifications := cs\<rparr>, kp + ke + ks))"

text \<open>The clock readings of one call: by the callable itself and by the code of each
  channel.\<close>

record clocks =
  callTime :: int
  pushTime :: int
  emailTime :: int
  smsTime :: int

record preferences =
  push :: bool
  email :: bool
  sms :: bool

record contact =
  fcmTokens :: "string list option"
  email_c :: "string option"
  phone :: "string option"

text \<open>\<open>request.data\<close> of \<open>scheduleItemNotification\<close>. A missing string is the empty
  string (both are falsy); \<open>scheduledDate_r\<close> is the instant the given date parses to.\<close>

record request =
  userId_r :: string
  itemId_r :: string
  itemName_r :: string
  category_r :: string
  notificationType_r :: string
  scheduledDate_r :: "int option"
  userPreferences_r :: "preferences option"
  userContact_r :: "contact option"
  reminderDaysBefore_r :: "nat option"

record response =
  success :: bool
  push_id :: "nat option"
  email_id :: "nat option"
  sms_id :: "nat option"
  message :: string

definition str_or :: "string \<Rightarrow> string \<Rightarrow> string" where
  "str_or a d = (if a = [] then d else a)"

definition truthy :: "string option \<Rightarrow> bool" where
  "truthy s = (case s of None \<Rightarrow> False | Some x \<Rightarrow> x \<noteq> [])"

definition channelData :: "request \<Rightarrow> int \<Rightarrow> 'c \<Rightarrow> 'c notificationData" where
  "channelData req t x =
     \<lparr> userId_d = userId_r req, itemId_d = itemId_r req, itemName_d = itemName_r req,
       category_d = str_or (category_r req) ''general'',
       notificationType_d = str_or (notificationType_r req) ''reminder'',
       scheduledDate_d = Some t, userContact_d = x,
       reminderDaysBefore_d =
         Some (js_or (case reminderDaysBefore_r req of None \<Rightarrow> 0 | Some k \<Rightarrow> k) 7) \<rparr>"

definition pushEligible :: "preferences \<Rightarrow> contact \<Rightarrow> bool" where
  "pushEligible p c = (push p \<and> (case fcmTokens c of None \<Rightarrow> False | Some l \<Rightarrow> length l > 0))"

definition emailEligible :: "preferences \<Rightarrow> contact \<Rightarrow> bool" where
  "emailEligible p c = (email p \<and> truthy (email_c c))"

definition smsEligible :: "preferences \<Rightarrow> contact \<Rightarrow> bool" where
  "smsEligible p c = (sms p \<and> truthy (phone c))"

definition requestPreferences :: "request \<Rightarrow> preferences" where
  "requestPreferences req =
     (case userPreferences_r req of
        None \<Rightarrow> \<lparr>push = False, email = True, sms = False\<rparr>
      | Some p \<Rightarrow> p)"

definition requestContact :: "request \<Rightarrow> contact" where
  "requestContact req =
     (case userContact_r req of
        None \<Rightarrow> \<lparr>fcmTokens = None, email_c = None, phone = None\<rparr>
      | Some c \<Rightarrow> c)"

fun rejected :: "(error + nat) option \<Rightarrow> bool" where
  "rejected (Some (Inl _)) = True"
| "rejected _ = False"

fun docId :: "(error + nat) option \<Rightarrow> nat option" where
  "docId (Some (Inr i)) = Some i"
| "docId _ = None"

text \<open>\<open>scheduleItemNotification\<close>. Each eligible channel's schedule function is started
  (its promise pushed); \<open>Promise.all\<close> rejects when one of them rejects, which the
  \<open>catch\<close> turns into an \<open>internal\<close> error, the documents of the other channels staying
  in the store.\<close>

definition scheduleItemNotification ::
  "clocks \<Rightarrow> request \<Rightarrow> store \<Rightarrow> (error + response) \<times> store" where
  "scheduleItemNotification clk req st =
     (if userId_r req = [] \<or> itemId_r req = [] \<or> itemName_r req = []
         \<or> scheduledDate_r req = None
      then (Inl (HttpsError ''invalid-argument''
                  ''Missing required parameters: userId, itemId, itemName, scheduledDate''), st)
      else case scheduledDate_r req of
        None \<Rightarrow> (Inl (HttpsError ''invalid-argument''
                  ''Missing required parameters: userId, itemId, itemName, scheduledDate''), st)
      | Some scheduleDateTime \<Rightarrow>
        if scheduleDateTime \<le> callTime clk
        then (Inl (HttpsError ''invalid-argument'' ''Scheduled date must be in the future''), st)
        else
          (let prefs = requestPreferences req;
               cont = requestContact req;
               (rp, cp) =
                 (if pushEligible prefs cont
                  then (case schedulePushNotification (pushTime clk)
                               (channelData req scheduleDateTime (fcmTokens cont))
                               (scheduledPushNotifications st) of (r, c) \<Rightarrow> (Some r, c))
                  else (None, scheduledPushNotifications st));
               (re, ce) =
                 (if emailEligible prefs cont
                  then (case scheduleEmailNotification (emailTime clk)
                               (channelData req scheduleDateTime (the (email_c cont)))
                               (scheduledEmailNotifications st) of (r, c) \<Rightarrow> (Some r, c))
                  else (None, scheduledEmailNotifications st));
               (rs, cs) =
                 (if smsEligible prefs cont
                  then (case scheduleSMSNotification (smsTime clk)
                               (channelData req scheduleDateTime (the (phone cont)))
                               (scheduledSMSNotifications st) of (r, c) \<Rightarrow> (Some r, c))
                  else (None, scheduledSMSNotifications st));
               st' = st\<lparr>scheduledPushNotifications := cp, scheduledEmailNotifications := ce,
                        scheduledSMSNotifications := cs\<rparr>
           in if rp = None \<and> re = None \<and> rs = None
              then (Inl (HttpsError ''invalid-argument''
                     ''No valid notification preferences or contact details provided''), st)
              else if rejected rp \<or> rejected re \<or> rejected rs
              then (Inl (HttpsError ''internal'' ''Failed to schedule notification''), st')
              else (Inr \<lparr>success = True, push_id = docId rp, email_id = docId re,
                         sms_id = docId rs,
                         message = ''Notifications scheduled for '' @ itemName_r req\<rparr>, st')))"

text \<open>\<open>cancelNotifications\<close>: the three channels are cancelled and their counts added.\<close>

definition cancelNotifications ::
  "clocks \<Rightarrow> string \<Rightarrow> string option \<Rightarrow> store \<Rightarrow> (error + nat) \<times> store" where
  "cancelNotifications clk iid uid st =
     (if iid = [] then (Inl (HttpsError ''invalid-argument'' ''itemId is required''), st)
      else
        case cancelChannelNotifications iid uid (pushTime clk) (scheduledPushNotifications st) of
          (kp, cp) \<Rightarrow>
        case cancelChannelNotifications iid uid (emailTime clk) (scheduledEmailNotifications st) of
          (ke, ce) \<Rightarrow>
        case cancelChannelNotifications iid uid (smsTime clk) (scheduledSMSNotifications st) of
          (ks, cs) \<Rightarrow>
          (Inr (kp + ke + ks),
           st\<lparr>scheduledPushNotifications := cp, scheduledEmailNotifications := ce,
              scheduledSMSNotifications := cs\<rparr>))"

section \<open>The three dispatchers and runs of the engine\<close>

definition processScheduledEmailNotifications ::
  "(call \<Rightarrow> bool promise) \<Rightarrow> int \<Rightarrow> (nat \<Rightarrow> int) \<Rightarrow> string collection
     \<Rightarrow> string collection \<times> ProcessingResult" where
  "processScheduledEmailNotifications EmailService =
     processScheduledNotifications (sendEmailNotification EmailService)"

definition processScheduledSMSNotifications ::
  "(call \<Rightarrow> bool) \<Rightarrow> int \<Rightarrow> (nat \<Rightarrow> int) \<Rightarrow> string collection
     \<Rightarrow> string collection \<times> ProcessingResult" where
  "processScheduledSMSNotifications twilio =
     processScheduledNotifications (sendSMSNotification (SMSService twilio))"

definition processScheduledPushNotifications ::
  "(call \<Rightarrow> bool) \<Rightarrow> int \<Rightarrow> (nat \<Rightarrow> int) \<Rightarrow> string list option collection
     \<Rightarrow> string list option collection \<times> ProcessingResult" where
  "processScheduledPushNotifications fcm =
     processScheduledNotifications (sendPushNotification (PushNotificationService fcm))"

text \<open>One operation of the engine, with the clock readings it makes and the answers of the
  outside world (the transports) during it.\<close>

datatype event =
    SchedulePush int "string list option notificationData"
  | ScheduleEmail int "string notificationData"
  | ScheduleSMS int "string notificationData"
  | ScheduleItem clocks request
  | ProcessPush "call \<Rightarrow> bool" int "nat \<Rightarrow> int"
  | ProcessEmail "call \<Rightarrow> bool promise" int "nat \<Rightarrow> int"
  | ProcessSMS "call \<Rightarrow> bool" int "nat \<Rightarrow> int"
  | CancelItem clocks string "string option"
  | Cleanup int

fun step :: "event \<Rightarrow> store \<Rightarrow> store" where
  "step (SchedulePush now data) st =
     st\<lparr>scheduledPushNotifications :=
          snd (schedulePushNotification now data (scheduledPushNotifications st))\<rparr>"
| "step (ScheduleEmail now data) st =
     st\<lparr>scheduledEmailNotifications :=
          snd (scheduleEmailNotification now data (scheduledEmailNotifications st))\<rparr>"
| "step (ScheduleSMS now data) st =
     st\<lparr>scheduledSMSNotifications :=
          snd (scheduleSMSNotification now data (scheduledSMSNotifications st))\<rparr>"
| "step (ScheduleItem clk req) st = snd (scheduleItemNotification clk req st)"
| "step (ProcessPush fcm now clk) st =
     st\<lparr>scheduledPushNotifications :=
          fst (processScheduledPushNotifications fcm now clk (scheduledPushNotifications st))\<rparr>"
| "step (ProcessEmail EmailService now clk) st =
     st\<lparr>scheduledEmailNotifications :=
          fst (processScheduledEmailNotifications EmailService now clk
                 (scheduledEmailNotifications st))\<rparr>"
| "step (ProcessSMS twilio now clk) st =
     st\<lparr>scheduledSMSNotifications :=
          fst (processScheduledSMSNotifications twilio now clk (scheduledSMSNotifications st))\<rparr>"
| "step (CancelItem clk iid uid) st = snd (cancelNotifications clk iid uid st)"
| "step (Cleanup now) st = fst (cleanupOldNotifications now st)"

fun run :: "event list \<Rightarrow> store \<Rightarrow> store" where
  "run [] st = st"
| "run (e # es) st = run es (step e st)"

definition emptyCollection :: "'c collection" where
  "emptyCollection = \<lparr>docs = [], nextId = 0\<rparr>"

definition emptyStore :: store where
  "emptyStore = \<lparr>scheduledPushNotifications = emptyCollection,
                  scheduledEmailNotifications = emptyCollection,
                  scheduledSMSNotifications = emptyCollection\<rparr>"

text \<open>Document ids are unique in a collection and were all handed out by it.\<close>

definition wfCollection :: "'c collection \<Rightarrow> bool" where
  "wfCollection c = (distinct (map fst (docs c)) \<and> list_all (\<lambda>(i, d). i < nextId c) (docs c))"

definition wfStore :: "store \<Rightarrow> bool" where
  "wfStore st = (wfCollection (scheduledPushNotifications st) \<and>
                 wfCollection (scheduledEmailNotifications st) \<and>
                 wfCollection (scheduledSMSNotifications st))"

datatype channel = PushChannel | EmailChannel | SMSChannel

text \<open>What a claim about "a record" of "a channel collection" reads: the id, status,
  attempt count and attempt limit of every document of the channel's collection.\<close>

definition summary :: "(nat \<times> 'c notification) list \<Rightarrow> (nat \<times> status \<times> nat \<times> nat) list" where
  "summary ds = map (\<lambda>(i, d). (i, status d, attempts d, maxAttempts d)) ds"

fun records :: "channel \<Rightarrow> store \<Rightarrow> (nat \<times> status \<times> nat \<times> nat) list" where
  "records PushChannel st = summary (docs (scheduledPushNotifications st))"
| "records EmailChannel st = summary (docs (scheduledEmailNotifications st))"
| "records SMSChannel st = summary (docs (scheduledSMSNotifications st))"

text \<open>The ids the due-work query of a channel's dispatcher selects at \<open>now\<close>.\<close>

fun dueIds :: "channel \<Rightarrow> int \<Rightarrow> store \<Rightarrow> nat list" where
  "dueIds PushChannel now st = map fst (dueQuery now (docs (scheduledPushNotifications st)))"
| "dueIds EmailChannel now st = map fst (dueQuery now (docs (scheduledEmailNotifications st)))"
| "dueIds SMSChannel now st = map fst (dueQuery now (docs (scheduledSMSNotifications st)))"

section \<open>Invariants of collections\<close>

text \<open>The attempt budget of a document as the scheduler creates it and the dispatcher keeps
  it: the limit is 3, the count is at most 3, and below 3 while the document is still
  \<open>scheduled\<close>.\<close>

definition withinBudget :: "'c notification \<Rightarrow> bool" where
  "withinBudget d =
     (maxAttempts d = 3 \<and> attempts d \<le> 3 \<and> (status d = Scheduled \<longrightarrow> attempts d < 3))"

definition budgeted :: "'c collection \<Rightarrow> bool" where
  "budgeted c = list_all (\<lambda>(i, d). withinBudget d) (docs c)"

text \<open>Every document under id \<open>i\<close> is \<open>failed\<close>, and \<open>i\<close> is an id the collection has
  already handed out.\<close>

definition failedAt_id :: "nat \<Rightarrow> 'c collection \<Rightarrow> bool" where
  "failedAt_id i c = (list_all (\<lambda>(j, d). j \<noteq> i \<or> status d = Failed) (docs c) \<and> i < nextId c)"


section \<open>Example data\<close>

definition laptop :: "string notification" where
  "laptop =
     \<lparr> userId = ''u1'', itemId = ''item1'', itemName = ''Laptop'', category = ''hardware'',
       notificationType = ''warranty_expiration'', scheduledDate = 500,
       userContact = ''a@b.c'', reminderDaysBefore = 7, status = Scheduled, createdAt = 100,
       attempts = 0, maxAttempts = 3, processedAt = None, sentAt = None, failedAt = None,
       cancelledAt = None, lastAttempt = None, lastError = None \<rparr>"

definition inbox :: "string collection" where
  "inbox = \<lparr>docs = [(0, laptop)], nextId = 1\<rparr>"

definition noAnswer :: "call \<Rightarrow> bool promise" where
  "noAnswer options = Resolved False"

definition atTwoThousand :: "nat \<Rightarrow> int" where
  "atTwoThousand i = 2000"

definition router :: "string list option notification" where
  "router =
     \<lparr> userId = ''u1'', itemId = ''item2'', itemName = ''Router'', category = ''hardware'',
       notificationType = ''warranty_expiration'', scheduledDate = 500,
       userContact = Some [''tokenA'', ''tokenB''], reminderDaysBefore = 7, status = Scheduled,
       createdAt = 100, attempts = 0, maxAttempts = 3, processedAt = None, sentAt = None,
       failedAt = None, cancelledAt = None, lastAttempt = None, lastError = None \<rparr>"

definition tray :: "string list option collection" where
  "tray = \<lparr>docs = [(0, router)], nextId = 1\<rparr>"

definition fcmDown :: "call \<Rightarrow> bool" where
  "fcmDown options = False"




definition reminder :: "string notificationData" where
  "reminder =
     \<lparr> userId_d = ''u1'', itemId_d = ''item1'', itemName_d = ''Laptop'',
       category_d = ''hardware'', notificationType_d = ''warranty_expiration'',
       scheduledDate_d = Some 500, userContact_d = ''a@b.c'', reminderDaysBefore_d = None \<rparr>"

definition atOneWeek :: "nat \<Rightarrow> int" where
  "atOneWeek i = 604800000"

text \<open>One reminder is scheduled and its delivery fails in three successive passes, each
  after the backoff of the one before.\<close>

definition threeFailures :: "event list" where
  "threeFailures =
     [ScheduleEmail 0 reminder,
      ProcessEmail noAnswer 1000 atTwoThousand,
      ProcessEmail noAnswer 700000 atTwoThousand,
      ProcessEmail noAnswer 2000000 atOneWeek]"

definition wornLaptop :: "string notification" where
  "wornLaptop = laptop\<lparr>attempts := 2\<rparr>"

definition wornInbox :: "string collection" where
  "wornInbox = \<lparr>docs = [(0, wornLaptop)], nextId = 1\<rparr>"

definition deadLaptop :: "string notification" where
  "deadLaptop = laptop\<lparr>status := Failed, attempts := 3\<rparr>"

definition deadStore :: store where
  "deadStore = emptyStore\<lparr>scheduledEmailNotifications := \<lparr>docs = [(0, deadLaptop)], nextId = 1\<rparr>\<rparr>"

definition oneClock :: clocks where
  "oneClock = \<lparr>callTime = 3000, pushTime = 3000, emailTime = 3000, smsTime = 3000\<rparr>"

definition laterPasses :: "event list" where
  "laterPasses =
     [ProcessEmail noAnswer 1000 atTwoThousand,
      CancelItem oneClock ''item1'' None,
      ScheduleEmail 0 reminder,
      ProcessEmail noAnswer 700000 atTwoThousand]"

definition sentLaptop :: "string notification" where
  "sentLaptop = laptop\<lparr>status := Sent, processedAt := Some 0, sentAt := Some 0\<rparr>"

definition desk :: "string notification" where
  "desk = laptop\<lparr>itemId := ''item2'', itemName := ''Desk''\<rparr>"

definition mixedInbox :: "string collection" where
  "mixedInbox = \<lparr>docs = [(0, laptop), (1, sentLaptop), (2, desk)], nextId = 3\<rparr>"

text \<open>501 reminders, each sent at instant 0, and a sweep 31 days later.\<close>

definition backlog :: "string collection" where
  "backlog = \<lparr>docs = map (\<lambda>i. (i, sentLaptop)) [0..<501], nextId = 501\<rparr>"

definition backlogStore :: store where
  "backlogStore = emptyStore\<lparr>scheduledEmailNotifications := backlog\<rparr>"

definition day31 :: int where
  "day31 = 31 * 86400000"








section \<open>Facts about the store operations\<close>

lemma updateDoc_ids: "map fst (updateDoc i f ds) = map fst ds"
  by (induction ds) (auto simp: updateDoc_def)

lemma map_of_updateDoc:
  "map_of (updateDoc i f ds) j = (if j = i then map_option f (map_of ds i) else map_of ds j)"
  by (induction ds) (auto simp: updateDoc_def)

lemma claimBatch_ids: "map fst (claimBatch t ps ds) = map fst ds"
  by (induction ps arbitrary: ds) (simp_all add: updateDoc_ids)

lemma map_of_claimBatch:
  "map_of (claimBatch t ps ds) j =
     (if j \<in> fst ` set ps then map_option (markProcessing t) (map_of ds j) else map_of ds j)"
proof (induction ps arbitrary: ds)
  case Nil
  then show ?case by simp
next
  case (Cons p ps)
  have idem: "markProcessing t (markProcessing t d) = markProcessing t d" for d :: "'a notification"
    by (simp add: markProcessing_def)
  show ?case
    by (cases "map_of ds j") (auto simp: Cons.IH map_of_updateDoc idem)
qed

lemma processNotification_ids:
  "map fst (fst (processNotification send t p s)) = map fst (fst s)"
  by (cases p; cases s)
     (simp add: processNotification_def updateDoc_ids Let_def split: option.splits)

lemma processNotification_other:
  "j \<noteq> fst p \<Longrightarrow> map_of (fst (processNotification send t p s)) j = map_of (fst s) j"
  by (cases p; cases s)
     (simp add: processNotification_def map_of_updateDoc Let_def split: option.splits)

lemma processNotification_cong:
  "map_of (fst s') i = map_of (fst s) i \<Longrightarrow>
   map_of (fst (processNotification send t (i, n) s')) i =
   map_of (fst (processNotification send t (i, n) s)) i"
  by (cases s; cases s')
     (simp add: processNotification_def map_of_updateDoc Let_def split: option.splits)

lemma processLoop_ids: "map fst (fst (processLoop send clk ps s)) = map fst (fst s)"
  by (induction ps arbitrary: s) (simp_all add: processNotification_ids)

lemma processLoop_other:
  "j \<notin> fst ` set ps \<Longrightarrow> map_of (fst (processLoop send clk ps s)) j = map_of (fst s) j"
  by (induction ps arbitrary: s) (simp_all add: processNotification_other)

text \<open>With distinct ids in the snapshot, the loop handles document \<open>i\<close> exactly once.\<close>

lemma processLoop_lookup:
  "distinct (map fst ps) \<Longrightarrow> (i, n) \<in> set ps \<Longrightarrow>
   map_of (fst (processLoop send clk ps s)) i =
   map_of (fst (processNotification send (clk i) (i, n) s)) i"
proof (induction ps arbitrary: s)
  case Nil
  then show ?case by simp
next
  case (Cons p ps)
  show ?case
  proof (cases "p = (i, n)")
    case True
    with Cons.prems have "i \<notin> fst ` set ps" by auto
    with True show ?thesis by (simp add: processLoop_other)
  next
    case False
    with Cons.prems have mem: "(i, n) \<in> set ps" and ne: "i \<noteq> fst p"
      and d: "distinct (map fst ps)"
      by (auto simp: rev_image_eqI)
    have "map_of (fst (processLoop send clk (p # ps) s)) i =
          map_of (fst (processNotification send (clk i) (i, n)
                         (processNotification send (clk (fst p)) p s))) i"
      using Cons.IH [OF d mem] by simp
    also have "\<dots> = map_of (fst (processNotification send (clk i) (i, n) s)) i"
      by (rule processNotification_cong) (simp add: processNotification_other ne)
    finally show ?thesis .
  qed
qed

lemma dueQuery_subset: "set (dueQuery now ds) \<subseteq> set ds"
  by (auto simp: dueQuery_def dest: in_set_takeD)

lemma dueQuery_distinct: "distinct (map fst ds) \<Longrightarrow> distinct (map fst (dueQuery now ds))"
  unfolding dueQuery_def
  by (simp add: distinct_map_filter take_map [symmetric])

lemma dueQuery_status:
  "(i, d) \<in> set (dueQuery now ds) \<Longrightarrow> status d = Scheduled \<and> scheduledDate d \<le> now"
  by (auto simp: dueQuery_def dest: in_set_takeD)

text \<open>What a pass leaves under the id of a selected document: the outcome of its own
  iteration of the loop, applied to the document as the claiming batch left it.\<close>

lemma processScheduled_lookup:
  assumes dist: "distinct (map fst (docs c))"
      and sel: "(i, n) \<in> set (dueQuery now (docs c))"
  shows "map_of (docs (fst (processScheduledNotifications send now clk c))) i =
         map_of (fst (processNotification send (clk i) (i, n)
                        ([(i, markProcessing now n)], r))) i"
proof -
  let ?snap = "dueQuery now (docs c)"
  let ?r0 = "\<lparr>processed = 0, successful = 0, failed = 0, errors = []\<rparr>
               \<lparr>processed := length ?snap\<rparr>"
  have ne: "?snap \<noteq> []" using sel by auto
  have dsnap: "distinct (map fst ?snap)" using dist by (rule dueQuery_distinct)
  have look: "map_of (docs c) i = Some n"
    using dist sel dueQuery_subset [of now "docs c"] by (auto intro: map_of_is_SomeI)
  have claimed: "map_of (claimBatch now ?snap (docs c)) i = Some (markProcessing now n)"
    using sel by (simp add: map_of_claimBatch look rev_image_eqI)
  have "map_of (docs (fst (processScheduledNotifications send now clk c))) i =
        map_of (fst (processLoop send clk ?snap (claimBatch now ?snap (docs c), ?r0))) i"
    using ne by (simp add: processScheduledNotifications_def Let_def split: prod.splits)
  also have "\<dots> = map_of (fst (processNotification send (clk i) (i, n)
                      (claimBatch now ?snap (docs c), ?r0))) i"
    by (rule processLoop_lookup [OF dsnap sel])
  also have "\<dots> = map_of (fst (processNotification send (clk i) (i, n)
                        ([(i, markProcessing now n)], r))) i"
    by (rule processNotification_cong) (simp add: claimed)
  finally show ?thesis .
qed

section \<open>Retry with backoff\<close>

text \<open>
  Claim C1. In a collection whose document ids are distinct, let the due-work query of a
  dispatcher pass select document \<open>i\<close> with content \<open>n\<close>, let the channel's send function
  throw on it with message \<open>msg\<close>, and let the incremented attempt count \<open>attempts n + 1\<close>
  be below the attempt limit the code reads (\<open>notification.maxAttempts || 3\<close>). Then the
  pass leaves under \<open>i\<close> the document \<open>n\<close> with status \<open>scheduled\<close>, \<open>attempts\<close> one more
  than before, \<open>lastError\<close> the message, and \<open>scheduledDate\<close> the instant \<open>clk i\<close> at which
  the outcome is written plus \<open>5 * 2 ^ attempts\<close> minutes (\<open>attempts\<close> the incremented
  count); besides these only \<open>processedAt\<close> (set by the claim) and \<open>lastAttempt\<close> change.
  The send function is arbitrary, so this holds for the push, email and SMS dispatchers.
\<close>

theorem dispatcher_retry_reschedules:
  assumes "distinct (map fst (docs c))"
      and "(i, n) \<in> set (dueQuery now (docs c))"
      and "send n = Some msg"
      and "attempts n + 1 < js_or (maxAttempts n) 3"
  shows "map_of (docs (fst (processScheduledNotifications send now clk c))) i =
         Some (n\<lparr>status := Scheduled, attempts := attempts n + 1, lastError := Some msg,
                 scheduledDate := clk i + 5 * 2 ^ (attempts n + 1) * 60000,
                 processedAt := Some now, lastAttempt := Some (clk i)\<rparr>)"
  using assms(3,4)
  by (simp add: processScheduled_lookup [OF assms(1,2), where r = undefined]
      processNotification_def updateDoc_def Let_def js_or_def markRetry_def markProcessing_def
      retryDate_def)

theorem dispatcher_retry_reschedules_witness:
  "distinct (map fst (docs inbox)) \<and>
   (0, laptop) \<in> set (dueQuery 1000 (docs inbox)) \<and>
   sendEmailNotification noAnswer laptop =
     Some ''Email failed for Laptop: No response from email service'' \<and>
   attempts laptop + 1 < js_or (maxAttempts laptop) 3 \<and>
   map_of (docs (fst (processScheduledEmailNotifications noAnswer 1000 atTwoThousand inbox))) 0 =
     Some (laptop\<lparr>status := Scheduled, attempts := 1,
                  lastError := Some ''Email failed for Laptop: No response from email service'',
                  scheduledDate := 602000, processedAt := Some 1000,
                  lastAttempt := Some 2000\<rparr>)"
proof -
  have h1: "distinct (map fst (docs inbox))"
    by (simp add: inbox_def)
  have h2: "(0, laptop) \<in> set (dueQuery 1000 (docs inbox))"
    by (simp add: inbox_def dueQuery_def laptop_def)
  have h3: "sendEmailNotification noAnswer laptop =
              Some ''Email failed for Laptop: No response from email service''"
    by (simp add: sendEmailNotification_def noAnswer_def laptop_def)
  have h4: "attempts laptop + 1 < js_or (maxAttempts laptop) 3"
    by (simp add: laptop_def js_or_def)
  have a: "attempts laptop = 0"
    by (simp add: laptop_def)
  show ?thesis
    using h1 h2 h3 h4 dispatcher_retry_reschedules
            [where send = "sendEmailNotification noAnswer" and clk = atTwoThousand, OF h1 h2 h3 h4]
    by (simp add: processScheduledEmailNotifications_def atTwoThousand_def a)
qed

section \<open>Push delivery\<close>

text \<open>The push service turns every transport error into the answer \<open>false\<close>, and the
  push scheduler counts a promise as a success when it is fulfilled, whatever its value:
  with this service the send function of the push dispatcher never throws.\<close>

lemma push_service_never_throws:
  "sendPushNotification (PushNotificationService fcm) n = None"
proof (cases "userContact n")
  case None
  then show ?thesis by (simp add: sendPushNotification_def)
next
  case (Some tokens)
  show ?thesis
  proof (cases tokens)
    case Nil
    with Some show ?thesis by (simp add: sendPushNotification_def)
  next
    case (Cons tok toks)
    with Some show ?thesis
      by (simp add: sendPushNotification_def PushNotificationService_def Let_def)
  qed
qed

text \<open>
  Claim C5 at a failing input. The record \<open>router\<close> has two device tokens and the push
  transport \<open>fcmDown\<close> fails for every message, so no token's delivery succeeds. The send
  function still returns normally, and the pass marks the record \<open>sent\<close> and counts it
  as successful, with nothing failed; the claim requires the failure path here.
\<close>

theorem push_all_tokens_failing_marked_sent:
  "sendPushNotification (PushNotificationService fcmDown) router = None \<and>
   map_of (docs (fst (processScheduledPushNotifications fcmDown 1000 atTwoThousand tray))) 0 =
     Some (router\<lparr>status := Sent, sentAt := Some 2000, processedAt := Some 1000,
                  lastAttempt := Some 2000\<rparr>) \<and>
   snd (processScheduledPushNotifications fcmDown 1000 atTwoThousand tray) =
     \<lparr>processed = 1, successful = 1, failed = 0, errors = []\<rparr>"
  by (simp add: push_service_never_throws processScheduledPushNotifications_def
      processScheduledNotifications_def dueQuery_def tray_def router_def Let_def
      processNotification_def updateDoc_def markSent_def markProcessing_def atTwoThousand_def)

section \<open>Runs of the engine\<close>

lemma scheduleItem_store:
  "snd (scheduleItemNotification clk req st) = st \<or>
   snd (scheduleItemNotification clk req st) =
     st\<lparr>scheduledPushNotifications :=
          (if pushEligible (requestPreferences req) (requestContact req)
           then snd (schedulePushNotification (pushTime clk)
                       (channelData req (the (scheduledDate_r req)) (fcmTokens (requestContact req)))
                       (scheduledPushNotifications st))
           else scheduledPushNotifications st),
        scheduledEmailNotifications :=
          (if emailEligible (requestPreferences req) (requestContact req)
           then snd (scheduleEmailNotification (emailTime clk)
                       (channelData req (the (scheduledDate_r req)) (the (email_c (requestContact req))))
                       (scheduledEmailNotifications st))
           else scheduledEmailNotifications st),
        scheduledSMSNotifications :=
          (if smsEligible (requestPreferences req) (requestContact req)
           then snd (scheduleSMSNotification (smsTime clk)
                       (channelData req (the (scheduledDate_r req)) (the (phone (requestContact req))))
                       (scheduledSMSNotifications st))
           else scheduledSMSNotifications st)\<rparr>"
  by (cases "scheduledDate_r req")
     (simp_all add: scheduleItemNotification_def Let_def split_beta)


lemma scheduleItem_push_shape:
  "scheduledPushNotifications (snd (scheduleItemNotification clk req st)) =
     scheduledPushNotifications st \<or>
   (\<exists>data. scheduledPushNotifications (snd (scheduleItemNotification clk req st)) =
      snd (schedulePushNotification (pushTime clk) data (scheduledPushNotifications st)))"
  using scheduleItem_store [of clk req st] by (elim disjE) (simp, simp, blast)

lemma scheduleItem_email_shape:
  "scheduledEmailNotifications (snd (scheduleItemNotification clk req st)) =
     scheduledEmailNotifications st \<or>
   (\<exists>data. scheduledEmailNotifications (snd (scheduleItemNotification clk req st)) =
      snd (scheduleEmailNotification (emailTime clk) data (scheduledEmailNotifications st)))"
  using scheduleItem_store [of clk req st] by (elim disjE) (simp, simp, blast)

lemma scheduleItem_sms_shape:
  "scheduledSMSNotifications (snd (scheduleItemNotification clk req st)) =
     scheduledSMSNotifications st \<or>
   (\<exists>data. scheduledSMSNotifications (snd (scheduleItemNotification clk req st)) =
      snd (scheduleSMSNotification (smsTime clk) data (scheduledSMSNotifications st)))"
  using scheduleItem_store [of clk req st] by (elim disjE) (simp, simp, blast)

lemma cancelNotifications_shape:
  "scheduledPushNotifications (snd (cancelNotifications clk iid uid st)) =
     scheduledPushNotifications st \<or>
   scheduledPushNotifications (snd (cancelNotifications clk iid uid st)) =
     snd (cancelChannelNotifications iid uid (pushTime clk) (scheduledPushNotifications st))"
  "scheduledEmailNotifications (snd (cancelNotifications clk iid uid st)) =
     scheduledEmailNotifications st \<or>
   scheduledEmailNotifications (snd (cancelNotifications clk iid uid st)) =
     snd (cancelChannelNotifications iid uid (emailTime clk) (scheduledEmailNotifications st))"
  "scheduledSMSNotifications (snd (cancelNotifications clk iid uid st)) =
     scheduledSMSNotifications st \<or>
   scheduledSMSNotifications (snd (cancelNotifications clk iid uid st)) =
     snd (cancelChannelNotifications iid uid (smsTime clk) (scheduledSMSNotifications st))"
  by (simp_all add: cancelNotifications_def split_beta)

lemma cleanup_shape:
  "scheduledPushNotifications (fst (cleanupOldNotifications now st)) =
     fst (cleanupCollection (cutoffDate now) (scheduledPushNotifications st))"
  "scheduledEmailNotifications (fst (cleanupOldNotifications now st)) =
     fst (cleanupCollection (cutoffDate now) (scheduledEmailNotifications st))"
  "scheduledSMSNotifications (fst (cleanupOldNotifications now st)) =
     fst (cleanupCollection (cutoffDate now) (scheduledSMSNotifications st))"
  by (simp_all add: cleanupOldNotifications_def split_beta)

text \<open>A property of collections that the scheduler, the dispatcher, cancellation and the
  sweeper each preserve is preserved by every step, and so by every run.\<close>

lemma step_preserves:
  fixes Qp :: "string list option collection \<Rightarrow> bool" and Qe Qs :: "string collection \<Rightarrow> bool"
  assumes sched:
      "\<And>now data c. Qp c \<Longrightarrow> Qp (snd (schedulePushNotification now data c))"
      "\<And>now data c. Qe c \<Longrightarrow> Qe (snd (scheduleEmailNotification now data c))"
      "\<And>now data c. Qs c \<Longrightarrow> Qs (snd (scheduleSMSNotification now data c))"
    and disp:
      "\<And>send now clk c. Qp c \<Longrightarrow> Qp (fst (processScheduledNotifications send now clk c))"
      "\<And>send now clk c. Qe c \<Longrightarrow> Qe (fst (processScheduledNotifications send now clk c))"
      "\<And>send now clk c. Qs c \<Longrightarrow> Qs (fst (processScheduledNotifications send now clk c))"
    and canc:
      "\<And>iid uid t c. Qp c \<Longrightarrow> Qp (snd (cancelChannelNotifications iid uid t c))"
      "\<And>iid uid t c. Qe c \<Longrightarrow> Qe (snd (cancelChannelNotifications iid uid t c))"
      "\<And>iid uid t c. Qs c \<Longrightarrow> Qs (snd (cancelChannelNotifications iid uid t c))"
    and clean:
      "\<And>cutoff c. Qp c \<Longrightarrow> Qp (fst (cleanupCollection cutoff c))"
      "\<And>cutoff c. Qe c \<Longrightarrow> Qe (fst (cleanupCollection cutoff c))"
      "\<And>cutoff c. Qs c \<Longrightarrow> Qs (fst (cleanupCollection cutoff c))"
    and init: "Qp (scheduledPushNotifications st)" "Qe (scheduledEmailNotifications st)"
      "Qs (scheduledSMSNotifications st)"
  shows "Qp (scheduledPushNotifications (step e st)) \<and>
         Qe (scheduledEmailNotifications (step e st)) \<and>
         Qs (scheduledSMSNotifications (step e st))"
proof (cases e)
  case (SchedulePush now data)
  then show ?thesis using init sched(1) by simp
next
  case (ScheduleEmail now data)
  then show ?thesis using init sched(2) by simp
next
  case (ScheduleSMS now data)
  then show ?thesis using init sched(3) by simp
next
  case (ScheduleItem clk req)
  have "Qp (scheduledPushNotifications (snd (scheduleItemNotification clk req st)))"
    using scheduleItem_push_shape [of clk req st] init(1) sched(1) by auto
  moreover have "Qe (scheduledEmailNotifications (snd (scheduleItemNotification clk req st)))"
    using scheduleItem_email_shape [of clk req st] init(2) sched(2) by auto
  moreover have "Qs (scheduledSMSNotifications (snd (scheduleItemNotification clk req st)))"
    using scheduleItem_sms_shape [of clk req st] init(3) sched(3) by auto
  ultimately show ?thesis using ScheduleItem by simp
next
  case (ProcessPush fcm now clk)
  then show ?thesis using init disp(1) by (simp add: processScheduledPushNotifications_def)
next
  case (ProcessEmail svc now clk)
  then show ?thesis using init disp(2) by (simp add: processScheduledEmailNotifications_def)
next
  case (ProcessSMS twilio now clk)
  then show ?thesis using init disp(3) by (simp add: processScheduledSMSNotifications_def)
next
  case (CancelItem clk iid uid)
  have "Qp (scheduledPushNotifications (snd (cancelNotifications clk iid uid st)))"
    using cancelNotifications_shape(1) [of clk iid uid st] init(1) canc(1) by auto
  moreover have "Qe (scheduledEmailNotifications (snd (cancelNotifications clk iid uid st)))"
    using cancelNotifications_shape(2) [of clk iid uid st] init(2) canc(2) by auto
  moreover have "Qs (scheduledSMSNotifications (snd (cancelNotifications clk iid uid st)))"
    using cancelNotifications_shape(3) [of clk iid uid st] init(3) canc(3) by auto
  ultimately show ?thesis using CancelItem by simp
next
  case (Cleanup now)
  then show ?thesis using init clean by (simp add: cleanup_shape)
qed

lemma run_preserves:
  fixes Qp :: "string list option collection \<Rightarrow> bool" and Qe Qs :: "string collection \<Rightarrow> bool"
  assumes sched:
      "\<And>now data c. Qp c \<Longrightarrow> Qp (snd (schedulePushNotification now data c))"
      "\<And>now data c. Qe c \<Longrightarrow> Qe (snd (scheduleEmailNotification now data c))"
      "\<And>now data c. Qs c \<Longrightarrow> Qs (snd (scheduleSMSNotification now data c))"
    and disp:
      "\<And>send now clk c. Qp c \<Longrightarrow> Qp (fst (processScheduledNotifications send now clk c))"
      "\<And>send now clk c. Qe c \<Longrightarrow> Qe (fst (processScheduledNotifications send now clk c))"
      "\<And>send now clk c. Qs c \<Longrightarrow> Qs (fst (processScheduledNotifications send now clk c))"
    and canc:
      "\<And>iid uid t c. Qp c \<Longrightarrow> Qp (snd (cancelChannelNotifications iid uid t c))"
      "\<And>iid uid t c. Qe c \<Longrightarrow> Qe (snd (cancelChannelNotifications iid uid t c))"
      "\<And>iid uid t c. Qs c \<Longrightarrow> Qs (snd (cancelChannelNotifications iid uid t c))"
    and clean:
      "\<And>cutoff c. Qp c \<Longrightarrow> Qp (fst (cleanupCollection cutoff c))"
      "\<And>cutoff c. Qe c \<Longrightarrow> Qe (fst (cleanupCollection cutoff c))"
      "\<And>cutoff c. Qs c \<Longrightarrow> Qs (fst (cleanupCollection cutoff c))"
    and init: "Qp (scheduledPushNotifications st)" "Qe (scheduledEmailNotifications st)"
      "Qs (scheduledSMSNotifications st)"
  shows "Qp (scheduledPushNotifications (run evs st)) \<and>
         Qe (scheduledEmailNotifications (run evs st)) \<and>
         Qs (scheduledSMSNotifications (run evs st))"
  using init
proof (induction evs arbitrary: st)
  case Nil
  then show ?case by simp
next
  case (Cons e evs)
  have "Qp (scheduledPushNotifications (step e st)) \<and>
        Qe (scheduledEmailNotifications (step e st)) \<and>
        Qs (scheduledSMSNotifications (step e st))"
    by (rule step_preserves [of Qp Qe Qs, OF sched disp canc clean Cons.prems])
  then show ?case using Cons.IH [of "step e st"] by simp
qed

section \<open>The attempt budget\<close>

lemma budgeted_iff: "budgeted c = (\<forall>i d. (i, d) \<in> set (docs c) \<longrightarrow> withinBudget d)"
  by (auto simp: budgeted_def list_all_iff)

lemma updateDoc_budget:
  assumes "\<forall>d. withinBudget d \<longrightarrow> withinBudget (f d)"
      and "\<forall>j d. (j, d) \<in> set ds \<longrightarrow> withinBudget d"
  shows "\<forall>j d. (j, d) \<in> set (updateDoc i f ds) \<longrightarrow> withinBudget d"
  using assms by (auto simp: updateDoc_def split: if_splits)

lemma claimBatch_budget:
  "\<forall>j d. (j, d) \<in> set ds \<longrightarrow> withinBudget d \<Longrightarrow>
   \<forall>j d. (j, d) \<in> set (claimBatch t ps ds) \<longrightarrow> withinBudget d"
proof (induction ps arbitrary: ds)
  case Nil
  then show ?case by simp
next
  case (Cons p ps)
  have "\<forall>j d. (j, d) \<in> set (updateDoc (fst p) (markProcessing t) ds) \<longrightarrow> withinBudget d"
    by (rule updateDoc_budget [OF _ Cons.prems]) (simp add: withinBudget_def markProcessing_def)
  then show ?case using Cons.IH by simp
qed

lemma processNotification_budget:
  assumes n: "withinBudget n" "status n = Scheduled"
      and ds: "\<forall>j d. (j, d) \<in> set ds \<longrightarrow> withinBudget d"
  shows "\<forall>j d. (j, d) \<in> set (fst (processNotification send t (i, n) (ds, r))) \<longrightarrow> withinBudget d"
proof (cases "send n")
  case None
  have "\<forall>j d. (j, d) \<in> set (updateDoc i (markSent t) ds) \<longrightarrow> withinBudget d"
    by (rule updateDoc_budget [OF _ ds]) (simp add: withinBudget_def markSent_def)
  with None show ?thesis by (simp add: processNotification_def)
next
  case (Some msg)
  have a: "attempts n < 3" and m: "maxAttempts n = 3"
    using n by (simp_all add: withinBudget_def)
  show ?thesis
  proof (cases "attempts n + 1 \<ge> 3")
    case True
    have "\<forall>j d. (j, d) \<in> set (updateDoc i (markFailed t (attempts n + 1) msg) ds) \<longrightarrow> withinBudget d"
      using a by (intro updateDoc_budget [OF _ ds]) (simp add: withinBudget_def markFailed_def)
    with Some True m show ?thesis by (simp add: processNotification_def js_or_def Let_def)
  next
    case False
    have "\<forall>j d. (j, d) \<in> set (updateDoc i (markRetry t (attempts n + 1) msg) ds) \<longrightarrow> withinBudget d"
      using False by (intro updateDoc_budget [OF _ ds]) (simp add: withinBudget_def markRetry_def)
    with Some False m show ?thesis by (simp add: processNotification_def js_or_def Let_def)
  qed
qed

lemma processLoop_budget:
  assumes "\<forall>j n. (j, n) \<in> set ps \<longrightarrow> withinBudget n \<and> status n = Scheduled"
      and "\<forall>j d. (j, d) \<in> set (fst s) \<longrightarrow> withinBudget d"
  shows "\<forall>j d. (j, d) \<in> set (fst (processLoop send clk ps s)) \<longrightarrow> withinBudget d"
  using assms
proof (induction ps arbitrary: s)
  case Nil
  then show ?case by simp
next
  case (Cons p ps)
  obtain i n where p: "p = (i, n)" by (cases p)
  obtain ds r where s: "s = (ds, r)" by (cases s)
  have "(i, n) \<in> set (p # ps)" by (simp add: p)
  with Cons.prems(1) have n: "withinBudget n" "status n = Scheduled" by blast+
  have ds: "\<forall>j d. (j, d) \<in> set ds \<longrightarrow> withinBudget d" using Cons.prems(2) by (simp add: s)
  have step: "\<forall>j d. (j, d) \<in> set (fst (processNotification send (clk i) (i, n) (ds, r)))
                \<longrightarrow> withinBudget d"
    by (rule processNotification_budget [OF n ds])
  have rest: "\<forall>j n. (j, n) \<in> set ps \<longrightarrow> withinBudget n \<and> status n = Scheduled"
    using Cons.prems(1) by simp
  have "processLoop send clk (p # ps) s =
        processLoop send clk ps (processNotification send (clk i) (i, n) (ds, r))"
    by (simp add: p s)
  then show ?case using Cons.IH [OF rest step] by simp
qed

lemma process_budget:
  assumes "budgeted c"
  shows "budgeted (fst (processScheduledNotifications send now clk c))"
proof -
  let ?snap = "dueQuery now (docs c)"
  have ds: "\<forall>j d. (j, d) \<in> set (docs c) \<longrightarrow> withinBudget d"
    using assms by (simp add: budgeted_iff)
  have snap: "\<forall>j n. (j, n) \<in> set ?snap \<longrightarrow> withinBudget n \<and> status n = Scheduled"
    using ds dueQuery_subset [of now "docs c"] dueQuery_status [of _ _ now "docs c"] by blast
  have cl: "\<forall>j d. (j, d) \<in> set (fst (claimBatch now ?snap (docs c), r)) \<longrightarrow> withinBudget d" for r :: ProcessingResult
    using claimBatch_budget [OF ds] by simp
  show ?thesis
    using assms processLoop_budget [OF snap cl]
    by (simp add: processScheduledNotifications_def Let_def split_beta budgeted_iff)
qed

lemma schedule_budget:
  assumes "budgeted c"
  shows "budgeted (snd (scheduleNotification noContact msg now data c))"
  using assms
  by (simp add: scheduleNotification_def add_def budgeted_def notificationDoc_def withinBudget_def
      split: option.splits)

lemma cancelBatch_budget:
  "\<forall>j d. (j, d) \<in> set ds \<longrightarrow> withinBudget d \<Longrightarrow>
   \<forall>j d. (j, d) \<in> set (cancelBatch t ps ds) \<longrightarrow> withinBudget d"
proof (induction ps arbitrary: ds)
  case Nil
  then show ?case by simp
next
  case (Cons p ps)
  have "\<forall>j d. (j, d) \<in> set (updateDoc (fst p) (markCancelled t) ds) \<longrightarrow> withinBudget d"
    by (rule updateDoc_budget [OF _ Cons.prems]) (simp add: withinBudget_def markCancelled_def)
  then show ?case using Cons.IH by simp
qed

lemma cancel_budget:
  assumes "budgeted c"
  shows "budgeted (snd (cancelChannelNotifications iid uid t c))"
  using assms cancelBatch_budget [of "docs c" t]
  by (simp add: cancelChannelNotifications_def Let_def budgeted_iff)

lemma deleteBatch_subset: "set (deleteBatch ps ds) \<subseteq> set ds"
proof (induction ps arbitrary: ds)
  case Nil
  then show ?case by simp
next
  case (Cons p ps)
  have "set (deleteBatch ps (deleteDoc (fst p) ds)) \<subseteq> set (deleteDoc (fst p) ds)"
    by (rule Cons.IH)
  also have "\<dots> \<subseteq> set ds" by (auto simp: deleteDoc_def)
  finally show ?case by simp
qed

lemma cleanup_subset: "set (docs (fst (cleanupCollection cutoff c))) \<subseteq> set (docs c)"
  using deleteBatch_subset [of _ "docs c"] by (simp add: cleanupCollection_def Let_def)

lemma cleanup_budget:
  assumes "budgeted c"
  shows "budgeted (fst (cleanupCollection cutoff c))"
  using assms cleanup_subset [of cutoff c] by (auto simp: budgeted_iff)

lemma run_budgeted:
  "budgeted (scheduledPushNotifications (run evs emptyStore)) \<and>
   budgeted (scheduledEmailNotifications (run evs emptyStore)) \<and>
   budgeted (scheduledSMSNotifications (run evs emptyStore))"
proof (rule run_preserves [where Qp = budgeted and Qe = budgeted and Qs = budgeted])
  show "budgeted (scheduledPushNotifications emptyStore)"
    "budgeted (scheduledEmailNotifications emptyStore)"
    "budgeted (scheduledSMSNotifications emptyStore)"
    by (simp_all add: emptyStore_def emptyCollection_def budgeted_def)
qed (simp_all add: schedulePushNotification_def scheduleEmailNotification_def
      scheduleSMSNotification_def schedule_budget process_budget cancel_budget cleanup_budget)

lemma budgeted_summary:
  "budgeted c \<Longrightarrow> list_all (\<lambda>(i, s, a, m). a \<le> m) (summary (docs c))"
  by (auto simp: budgeted_def summary_def list_all_iff withinBudget_def)

text \<open>
  Claim C6. Start from the empty store and run any sequence of operations of the engine:
  the three schedulers, the fan-out callable, the three dispatchers with any behaviour of
  the transports and any clock readings, cancellation, and the sweeper. In the store
  reached, every record of every channel has \<open>attempts \<le> maxAttempts\<close>.
\<close>

theorem attempts_never_exceed_limit:
  "list_all (\<lambda>(i, s, a, m). a \<le> m) (records ch (run evs emptyStore))"
  using run_budgeted [of evs] by (cases ch) (simp_all add: budgeted_summary)


theorem attempts_never_exceed_limit_witness:
  "records EmailChannel (run threeFailures emptyStore) = [(0, Failed, 3, 3)] \<and>
   list_all (\<lambda>(i, s, a, m). a \<le> m) (records EmailChannel (run threeFailures emptyStore))"
proof -
  have r: "records EmailChannel (run threeFailures emptyStore) = [(0, Failed, 3, 3)]"
    by code_simp
  show ?thesis
    using attempts_never_exceed_limit [of EmailChannel threeFailures] r
    by (simp del: records.simps)
qed

section \<open>Push records carry tokens\<close>














text \<open>The guard at the head of \<open>sendPushNotification\<close> is therefore never taken in a run of
  the engine. What it would do on a collection put together by hand: the send function
  returns without consulting the push service, and the loop settles the record as it
  settles every record whose send returns.\<close>

lemma token_guard_branch:
  assumes "distinct (map fst (docs c))"
      and "(i, n) \<in> set (dueQuery now (docs c))"
      and "noTokens (userContact n)"
  shows "sendPushNotification service n = None \<and>
         map_of (docs (fst (processScheduledNotifications (sendPushNotification service)
                              now clk c))) i =
           Some (n\<lparr>status := Sent, sentAt := Some (clk i), processedAt := Some now,
                   lastAttempt := Some (clk i)\<rparr>)"
proof -
  have s: "sendPushNotification service n = None"
    using assms(3) by (simp add: sendPushNotification_def noTokens_def split: option.splits)
  show ?thesis
    by (simp add: s processScheduled_lookup [OF assms(1,2), where r = undefined]
        processNotification_def updateDoc_def markSent_def markProcessing_def)
qed

section \<open>Terminal failure\<close>

lemma js_or_zero: "js_or a 0 = a"
  by (simp add: js_or_def)

lemma failedAt_id_iff:
  "failedAt_id i c = ((\<forall>d. (i, d) \<in> set (docs c) \<longrightarrow> status d = Failed) \<and> i < nextId c)"
  by (auto simp: failedAt_id_def list_all_iff)

lemma updateDoc_other_mem:
  "j \<noteq> i \<Longrightarrow> ((i, d) \<in> set (updateDoc j f ds)) = ((i, d) \<in> set ds)"
  by (induction ds) (auto simp: updateDoc_def split: if_splits)

lemma claimBatch_other_mem:
  "i \<notin> fst ` set ps \<Longrightarrow> ((i, d) \<in> set (claimBatch t ps ds)) = ((i, d) \<in> set ds)"
proof (induction ps arbitrary: ds)
  case Nil
  then show ?case by simp
next
  case (Cons p ps)
  then have "fst p \<noteq> i" and "i \<notin> fst ` set ps" by auto
  then show ?case using Cons.IH by (simp add: updateDoc_other_mem)
qed

lemma cancelBatch_other_mem:
  "i \<notin> fst ` set ps \<Longrightarrow> ((i, d) \<in> set (cancelBatch t ps ds)) = ((i, d) \<in> set ds)"
proof (induction ps arbitrary: ds)
  case Nil
  then show ?case by simp
next
  case (Cons p ps)
  then have "fst p \<noteq> i" and "i \<notin> fst ` set ps" by auto
  then show ?case using Cons.IH by (simp add: updateDoc_other_mem)
qed

lemma processNotification_other_mem:
  "fst p \<noteq> i \<Longrightarrow>
   ((i, d) \<in> set (fst (processNotification send t p s))) = ((i, d) \<in> set (fst s))"
  by (cases p; cases s)
     (simp add: processNotification_def updateDoc_other_mem Let_def split: option.splits)

lemma processLoop_other_mem:
  "i \<notin> fst ` set ps \<Longrightarrow>
   ((i, d) \<in> set (fst (processLoop send clk ps s))) = ((i, d) \<in> set (fst s))"
proof (induction ps arbitrary: s)
  case Nil
  then show ?case by simp
next
  case (Cons p ps)
  then have "fst p \<noteq> i" and "i \<notin> fst ` set ps" by auto
  then show ?case using Cons.IH by (simp add: processNotification_other_mem)
qed

text \<open>The due-work query never selects an id whose documents are all \<open>failed\<close>.\<close>

lemma failed_not_due:
  assumes "failedAt_id i c"
  shows "i \<notin> fst ` set (dueQuery now (docs c))"
proof
  assume "i \<in> fst ` set (dueQuery now (docs c))"
  then obtain d where sel: "(i, d) \<in> set (dueQuery now (docs c))" by auto
  then have "status d = Scheduled" by (simp add: dueQuery_status)
  moreover have "(i, d) \<in> set (docs c)" using sel dueQuery_subset by blast
  ultimately show False using assms by (auto simp: failedAt_id_iff)
qed

lemma process_nextId: "nextId (fst (processScheduledNotifications send now clk c)) = nextId c"
  by (simp add: processScheduledNotifications_def Let_def split_beta)

lemma process_failed:
  assumes "failedAt_id i c"
  shows "failedAt_id i (fst (processScheduledNotifications send now clk c))"
proof -
  let ?snap = "dueQuery now (docs c)"
  have out: "i \<notin> fst ` set ?snap" using assms by (rule failed_not_due)
  have "((i, d) \<in> set (docs (fst (processScheduledNotifications send now clk c)))) =
        ((i, d) \<in> set (docs c))" for d
    using processLoop_other_mem [OF out] claimBatch_other_mem [OF out]
    by (simp add: processScheduledNotifications_def Let_def split_beta)
  then show ?thesis using assms by (simp add: failedAt_id_iff process_nextId)
qed

lemma cancel_failed:
  assumes "failedAt_id i c"
  shows "failedAt_id i (snd (cancelChannelNotifications iid uid t c))"
proof -
  let ?snap = "filter (\<lambda>(i, d). cancelMatch iid uid d) (docs c)"
  have out: "i \<notin> fst ` set ?snap"
    using assms by (auto simp: failedAt_id_iff cancelMatch_def)
  have "((i, d) \<in> set (docs (snd (cancelChannelNotifications iid uid t c)))) =
        ((i, d) \<in> set (docs c))" for d
    using cancelBatch_other_mem [OF out]
    by (simp add: cancelChannelNotifications_def Let_def)
  moreover have "nextId (snd (cancelChannelNotifications iid uid t c)) = nextId c"
    by (simp add: cancelChannelNotifications_def Let_def)
  ultimately show ?thesis using assms by (simp add: failedAt_id_iff)
qed

lemma cleanup_failed:
  assumes "failedAt_id i c"
  shows "failedAt_id i (fst (cleanupCollection cutoff c))"
proof -
  have "nextId (fst (cleanupCollection cutoff c)) = nextId c"
    by (simp add: cleanupCollection_def Let_def)
  then show ?thesis using assms cleanup_subset [of cutoff c] by (auto simp: failedAt_id_iff)
qed

lemma schedule_failed:
  assumes "failedAt_id i c"
  shows "failedAt_id i (snd (scheduleNotification noContact msg now data c))"
  using assms
  by (auto simp: scheduleNotification_def add_def failedAt_id_iff split: option.splits)

lemma run_failed:
  assumes "failedAt_id i (scheduledPushNotifications st) \<or> ch \<noteq> PushChannel"
      and "failedAt_id i (scheduledEmailNotifications st) \<or> ch \<noteq> EmailChannel"
      and "failedAt_id i (scheduledSMSNotifications st) \<or> ch \<noteq> SMSChannel"
  shows "(failedAt_id i (scheduledPushNotifications (run evs st)) \<or> ch \<noteq> PushChannel) \<and>
         (failedAt_id i (scheduledEmailNotifications (run evs st)) \<or> ch \<noteq> EmailChannel) \<and>
         (failedAt_id i (scheduledSMSNotifications (run evs st)) \<or> ch \<noteq> SMSChannel)"
proof (rule run_preserves
    [where Qp = "\<lambda>c. failedAt_id i c \<or> ch \<noteq> PushChannel"
       and Qe = "\<lambda>c. failedAt_id i c \<or> ch \<noteq> EmailChannel"
       and Qs = "\<lambda>c. failedAt_id i c \<or> ch \<noteq> SMSChannel"])
  show "failedAt_id i (scheduledPushNotifications st) \<or> ch \<noteq> PushChannel"
    "failedAt_id i (scheduledEmailNotifications st) \<or> ch \<noteq> EmailChannel"
    "failedAt_id i (scheduledSMSNotifications st) \<or> ch \<noteq> SMSChannel"
    by (rule assms)+
qed (auto simp: schedulePushNotification_def scheduleEmailNotification_def
      scheduleSMSNotification_def schedule_failed process_failed cancel_failed cleanup_failed)

lemma wf_failed:
  assumes "wfCollection c" and "(i, Failed, a, m) \<in> set (summary (docs c))"
  shows "failedAt_id i c"
proof -
  from assms(2) obtain d where d: "(i, d) \<in> set (docs c)" "status d = Failed"
    by (auto simp: summary_def)
  have "distinct (map fst (docs c))" using assms(1) by (simp add: wfCollection_def)
  then have "d' = d" if "(i, d') \<in> set (docs c)" for d'
    using that d(1) by (meson eq_key_imp_eq_value)
  moreover have "i < nextId c"
    using assms(1) d(1) by (auto simp: wfCollection_def list_all_iff)
  ultimately show ?thesis using d(2) by (auto simp: failedAt_id_iff)
qed

lemma failed_summary:
  assumes "failedAt_id i c" and "(i, s, a, m) \<in> set (summary (docs c))"
  shows "s = Failed"
  using assms by (auto simp: failedAt_id_iff summary_def)

text \<open>
  Claim C2. First part: in a collection whose document ids are distinct, let the due-work
  query of a dispatcher pass select document \<open>i\<close> with content \<open>n\<close>, let the send function
  throw on it with message \<open>msg\<close>, and let the incremented attempt count reach the attempt
  limit the code reads (\<open>notification.maxAttempts || 3\<close>); then the pass leaves the record
  with status \<open>failed\<close>, \<open>failedAt\<close> stamped, \<open>lastError\<close> the message and the
  incremented count stored. Second part: in a store whose ids are unique and were handed
  out by it, take a record \<open>j\<close> of a channel whose status is \<open>failed\<close>; after any
  sequence \<open>evs\<close> of later operations of the engine, the due-work query of that channel's
  dispatcher does not select \<open>j\<close> at any instant, and whatever the channel still holds
  under \<open>j\<close> is \<open>failed\<close>.
\<close>

theorem failed_is_terminal:
  "(distinct (map fst (docs c)) \<and> (i, n) \<in> set (dueQuery now (docs c)) \<and>
    send n = Some msg \<and> js_or (maxAttempts n) 3 \<le> attempts n + 1 \<longrightarrow>
      map_of (docs (fst (processScheduledNotifications send now clk c))) i =
        Some (n\<lparr>status := Failed, attempts := attempts n + 1, lastError := Some msg,
                failedAt := Some (clk i), processedAt := Some now,
                lastAttempt := Some (clk i)\<rparr>)) \<and>
   (wfStore st \<and> (j, Failed, a, m) \<in> set (records ch st) \<longrightarrow>
      j \<notin> set (dueIds ch later (run evs st)) \<and>
      (\<forall>s a' m'. (j, s, a', m') \<in> set (records ch (run evs st)) \<longrightarrow> s = Failed))"
proof (intro conjI impI)
  assume h: "distinct (map fst (docs c)) \<and> (i, n) \<in> set (dueQuery now (docs c)) \<and>
    send n = Some msg \<and> js_or (maxAttempts n) 3 \<le> attempts n + 1"
  then have d: "distinct (map fst (docs c))" and sel: "(i, n) \<in> set (dueQuery now (docs c))"
    and thrown: "send n = Some msg" and lim: "js_or (maxAttempts n) 3 \<le> attempts n + 1"
    by simp_all
  show "map_of (docs (fst (processScheduledNotifications send now clk c))) i =
        Some (n\<lparr>status := Failed, attempts := attempts n + 1, lastError := Some msg,
                failedAt := Some (clk i), processedAt := Some now,
                lastAttempt := Some (clk i)\<rparr>)"
    using thrown lim
    by (simp add: processScheduled_lookup [OF d sel, where r = undefined]
        processNotification_def updateDoc_def Let_def js_or_zero markFailed_def
        markProcessing_def)
next
  assume h: "wfStore st \<and> (j, Failed, a, m) \<in> set (records ch st)"
  have start: "(failedAt_id j (scheduledPushNotifications st) \<or> ch \<noteq> PushChannel)"
    "(failedAt_id j (scheduledEmailNotifications st) \<or> ch \<noteq> EmailChannel)"
    "(failedAt_id j (scheduledSMSNotifications st) \<or> ch \<noteq> SMSChannel)"
  proof -
    from h have wf: "wfCollection (scheduledPushNotifications st)"
      "wfCollection (scheduledEmailNotifications st)"
      "wfCollection (scheduledSMSNotifications st)"
      by (simp_all add: wfStore_def)
    from h have mem: "(j, Failed, a, m) \<in> set (records ch st)" by simp
    show "failedAt_id j (scheduledPushNotifications st) \<or> ch \<noteq> PushChannel"
      using mem wf_failed [OF wf(1), of j a m] by (cases ch) simp_all
    show "failedAt_id j (scheduledEmailNotifications st) \<or> ch \<noteq> EmailChannel"
      using mem wf_failed [OF wf(2), of j a m] by (cases ch) simp_all
    show "failedAt_id j (scheduledSMSNotifications st) \<or> ch \<noteq> SMSChannel"
      using mem wf_failed [OF wf(3), of j a m] by (cases ch) simp_all
  qed
  note after = run_failed [OF start, of evs]
  show "j \<notin> set (dueIds ch later (run evs st))"
    using after
      failed_not_due [of j "scheduledPushNotifications (run evs st)" later]
      failed_not_due [of j "scheduledEmailNotifications (run evs st)" later]
      failed_not_due [of j "scheduledSMSNotifications (run evs st)" later]
    by (cases ch) auto
  show "\<forall>s a' m'. (j, s, a', m') \<in> set (records ch (run evs st)) \<longrightarrow> s = Failed"
    using after
      failed_summary [of j "scheduledPushNotifications (run evs st)"]
      failed_summary [of j "scheduledEmailNotifications (run evs st)"]
      failed_summary [of j "scheduledSMSNotifications (run evs st)"]
    by (cases ch) auto
qed


theorem failed_is_terminal_witness:
  "distinct (map fst (docs wornInbox)) \<and>
   (0, wornLaptop) \<in> set (dueQuery 1000 (docs wornInbox)) \<and>
   sendEmailNotification noAnswer wornLaptop =
     Some ''Email failed for Laptop: No response from email service'' \<and>
   js_or (maxAttempts wornLaptop) 3 \<le> attempts wornLaptop + 1 \<and>
   map_of (docs (fst (processScheduledEmailNotifications noAnswer 1000 atTwoThousand wornInbox))) 0 =
     Some (wornLaptop\<lparr>status := Failed, attempts := 3,
                      lastError := Some ''Email failed for Laptop: No response from email service'',
                      failedAt := Some 2000, processedAt := Some 1000,
                      lastAttempt := Some 2000\<rparr>) \<and>
   wfStore deadStore \<and>
   (0, Failed, 3, 3) \<in> set (records EmailChannel deadStore) \<and>
   0 \<notin> set (dueIds EmailChannel 5000000 (run laterPasses deadStore)) \<and>
   records EmailChannel (run laterPasses deadStore) = [(0, Failed, 3, 3), (1, Scheduled, 1, 3)]"
proof -
  have h1: "distinct (map fst (docs wornInbox))"
    by (simp add: wornInbox_def)
  have h2: "(0, wornLaptop) \<in> set (dueQuery 1000 (docs wornInbox))"
    by (simp add: wornInbox_def dueQuery_def wornLaptop_def laptop_def)
  have h3: "sendEmailNotification noAnswer wornLaptop =
              Some ''Email failed for Laptop: No response from email service''"
    by (simp add: sendEmailNotification_def noAnswer_def wornLaptop_def laptop_def)
  have h4: "js_or (maxAttempts wornLaptop) 3 \<le> attempts wornLaptop + 1"
    by (simp add: wornLaptop_def laptop_def js_or_def)
  have h5: "wfStore deadStore"
    by (simp add: wfStore_def wfCollection_def deadStore_def emptyStore_def emptyCollection_def)
  have h6: "(0, Failed, 3, 3) \<in> set (records EmailChannel deadStore)"
    by (simp add: deadStore_def summary_def deadLaptop_def laptop_def)
  have a: "attempts wornLaptop = 2"
    by (simp add: wornLaptop_def)
  have r: "records EmailChannel (run laterPasses deadStore) =
             [(0, Failed, 3, 3), (1, Scheduled, 1, 3)]"
    by code_simp
  note t = failed_is_terminal
    [where c = wornInbox and i = 0 and n = wornLaptop and now = 1000
       and send = "sendEmailNotification noAnswer" and clk = atTwoThousand
       and msg = "''Email failed for Laptop: No response from email service''"
       and st = deadStore and j = 0 and a = 3 and m = 3 and ch = EmailChannel
       and later = 5000000 and evs = laterPasses]
  show ?thesis
    using h1 h2 h3 h4 h5 h6 r t
    by (simp add: processScheduledEmailNotifications_def atTwoThousand_def a
        del: records.simps dueIds.simps)
qed

section \<open>Cancellation of scheduled records\<close>

lemma distinct_ids_unique:
  "distinct (map fst ds) \<Longrightarrow> (i, d) \<in> set ds \<Longrightarrow> (i, d') \<in> set ds \<Longrightarrow> d' = d"
  by (meson eq_key_imp_eq_value)

lemma cancelBatch_ids: "map fst (cancelBatch t ps ds) = map fst ds"
  by (induction ps arbitrary: ds) (simp_all add: updateDoc_ids)

lemma cancelBatch_map:
  "cancelBatch t ps ds =
     map (\<lambda>(i, d). if i \<in> fst ` set ps then (i, markCancelled t d) else (i, d)) ds"
proof (induction ps arbitrary: ds)
  case Nil
  then show ?case by simp
next
  case (Cons p ps)
  have idem: "markCancelled t (markCancelled t d) = markCancelled t d" for d :: "'a notification"
    by (simp add: markCancelled_def)
  show ?case
    by (simp add: Cons.IH updateDoc_def idem split_beta)
qed

lemma selected_ids:
  assumes "distinct (map fst ds)" and "(i, d) \<in> set ds"
  shows "(i \<in> fst ` set (filter (\<lambda>(i, d). P d) ds)) = P d"
proof
  assume "i \<in> fst ` set (filter (\<lambda>(i, d). P d) ds)"
  then obtain d' where "(i, d') \<in> set ds" "P d'" by auto
  then show "P d" using distinct_ids_unique [OF assms] by blast
next
  assume "P d"
  then have "(i, d) \<in> set (filter (\<lambda>(i, d). P d) ds)" using assms(2) by simp
  then show "i \<in> fst ` set (filter (\<lambda>(i, d). P d) ds)" by (rule rev_image_eqI) simp
qed

lemma cancel_docs:
  assumes "distinct (map fst (docs c))"
  shows "docs (snd (cancelChannelNotifications iid uid t c)) =
         map (\<lambda>(i, d). if cancelMatch iid uid d then (i, markCancelled t d) else (i, d)) (docs c)"
proof (cases "filter (\<lambda>(i, d). cancelMatch iid uid d) (docs c) = []")
  case True
  then have "\<forall>p \<in> set (docs c). \<not> cancelMatch iid uid (snd p)"
    by (auto simp: filter_empty_conv)
  then have "map (\<lambda>(i, d). if cancelMatch iid uid d then (i, markCancelled t d) else (i, d)) (docs c)
             = map (\<lambda>p. p) (docs c)"
    by (intro map_cong) (auto simp: split_beta)
  with True show ?thesis by (simp add: cancelChannelNotifications_def)
next
  case False
  have "map (\<lambda>(i, d). if i \<in> fst ` set (filter (\<lambda>(i, d). cancelMatch iid uid d) (docs c))
                        then (i, markCancelled t d) else (i, d)) (docs c) =
        map (\<lambda>(i, d). if cancelMatch iid uid d then (i, markCancelled t d) else (i, d)) (docs c)"
  proof (intro map_cong refl)
    fix p assume mem: "p \<in> set (docs c)"
    obtain i d where p: "p = (i, d)" by (cases p)
    have "(i \<in> fst ` set (filter (\<lambda>(i, d). cancelMatch iid uid d) (docs c))) =
          cancelMatch iid uid d"
      using mem unfolding p by (rule selected_ids [OF assms])
    then show "(case p of (i, d) \<Rightarrow>
                 if i \<in> fst ` set (filter (\<lambda>(i, d). cancelMatch iid uid d) (docs c))
                 then (i, markCancelled t d) else (i, d)) =
               (case p of (i, d) \<Rightarrow>
                 if cancelMatch iid uid d then (i, markCancelled t d) else (i, d))"
      by (simp add: p)
  qed
  with False show ?thesis by (simp add: cancelChannelNotifications_def cancelBatch_map)
qed

lemma cancel_count:
  "fst (cancelChannelNotifications iid uid t c) =
     length (filter (\<lambda>(i, d). cancelMatch iid uid d) (docs c))"
  by (simp add: cancelChannelNotifications_def Let_def)

text \<open>The callable \<open>cancelNotifications\<close> answers the sum of the three channel counts.\<close>

lemma cancelNotifications_total:
  "iid \<noteq> [] \<Longrightarrow>
   fst (cancelNotifications clk iid uid st) =
     Inr (fst (cancelChannelNotifications iid uid (pushTime clk) (scheduledPushNotifications st)) +
          fst (cancelChannelNotifications iid uid (emailTime clk) (scheduledEmailNotifications st)) +
          fst (cancelChannelNotifications iid uid (smsTime clk) (scheduledSMSNotifications st)))"
  by (simp add: cancelNotifications_def split_beta)

text \<open>
  Claim C7. In a channel collection whose document ids are distinct, a cancel call for
  \<open>iid\<close> (and the optional owner \<open>uid\<close>) rewrites exactly the records that match the
  subject and are \<open>scheduled\<close> (\<open>cancelMatch\<close>): each becomes \<open>cancelled\<close> with
  \<open>cancelledAt\<close> stamped, and every other record keeps its place and content. In
  particular every record that is not \<open>scheduled\<close> (processing, sent, failed, cancelled)
  is still there unchanged. The count returned is the number of records rewritten, and
  the same cancel call repeated on the result returns 0.
\<close>

theorem cancel_transitions_scheduled_only:
  assumes "distinct (map fst (docs c))"
  shows "docs (snd (cancelChannelNotifications iid uid t c)) =
           map (\<lambda>(i, d). if cancelMatch iid uid d
                          then (i, d\<lparr>status := Cancelled, cancelledAt := Some t\<rparr>) else (i, d))
               (docs c) \<and>
         (\<forall>i d. (i, d) \<in> set (docs c) \<and> status d \<noteq> Scheduled \<longrightarrow>
                  (i, d) \<in> set (docs (snd (cancelChannelNotifications iid uid t c)))) \<and>
         fst (cancelChannelNotifications iid uid t c) =
           length (filter (\<lambda>(i, d). cancelMatch iid uid d) (docs c)) \<and>
         fst (cancelChannelNotifications iid uid t'
                (snd (cancelChannelNotifications iid uid t c))) = 0"
proof -
  let ?c' = "snd (cancelChannelNotifications iid uid t c)"
  have docs': "docs ?c' =
      map (\<lambda>(i, d). if cancelMatch iid uid d then (i, markCancelled t d) else (i, d)) (docs c)"
    by (rule cancel_docs [OF assms])
  have frame: "(i, d) \<in> set (docs ?c')" if "(i, d) \<in> set (docs c)" "status d \<noteq> Scheduled" for i d
  proof -
    have "\<not> cancelMatch iid uid d" using that(2) by (simp add: cancelMatch_def)
    then have "(\<lambda>(i, d). if cancelMatch iid uid d then (i, markCancelled t d) else (i, d)) (i, d) = (i, d)"
      by simp
    then show ?thesis unfolding docs' using that(1) by (metis (no_types, lifting) image_eqI set_map)
  qed
  have none: "filter (\<lambda>(i, d). cancelMatch iid uid d) (docs ?c') = []"
  proof -
    have "\<not> cancelMatch iid uid d'" if mem: "(i, d') \<in> set (docs ?c')" for i d'
    proof -
      from mem obtain d where d: "(i, d) \<in> set (docs c)"
        "d' = (if cancelMatch iid uid d then markCancelled t d else d)"
        unfolding docs' by (auto split: if_splits)
      show ?thesis
      proof (cases "cancelMatch iid uid d")
        case True
        then have "status d' = Cancelled" using d(2) by (simp add: markCancelled_def)
        then show ?thesis by (simp add: cancelMatch_def)
      next
        case False
        then show ?thesis using d(2) by simp
      qed
    qed
    then show ?thesis by (auto simp: filter_empty_conv)
  qed
  have mc: "markCancelled t = (\<lambda>d. d\<lparr>status := Cancelled, cancelledAt := Some t\<rparr>)"
    by (rule ext) (simp add: markCancelled_def)
  have again: "fst (cancelChannelNotifications iid uid t' ?c') = 0"
    by (simp only: cancel_count none list.size)
  show ?thesis
  proof (intro conjI allI impI)
    show "docs ?c' =
          map (\<lambda>(i, d). if cancelMatch iid uid d
                         then (i, d\<lparr>status := Cancelled, cancelledAt := Some t\<rparr>) else (i, d))
              (docs c)"
      using docs' unfolding mc .
    show "(i, d) \<in> set (docs ?c')" if "(i, d) \<in> set (docs c) \<and> status d \<noteq> Scheduled" for i d
      using that frame by blast
    show "fst (cancelChannelNotifications iid uid t c) =
          length (filter (\<lambda>(i, d). cancelMatch iid uid d) (docs c))"
      by (rule cancel_count)
    show "fst (cancelChannelNotifications iid uid t' ?c') = 0"
      by (rule again)
  qed
qed

theorem cancel_transitions_scheduled_only_witness:
  "distinct (map fst (docs mixedInbox)) \<and>
   docs (snd (cancelChannelNotifications ''item1'' None 3000 mixedInbox)) =
     [(0, laptop\<lparr>status := Cancelled, cancelledAt := Some 3000\<rparr>), (1, sentLaptop), (2, desk)] \<and>
   fst (cancelChannelNotifications ''item1'' None 3000 mixedInbox) = 1 \<and>
   fst (cancelChannelNotifications ''item1'' None 4000
          (snd (cancelChannelNotifications ''item1'' None 3000 mixedInbox))) = 0"
proof -
  have h: "distinct (map fst (docs mixedInbox))"
    by (simp add: mixedInbox_def)
  have m: "cancelMatch ''item1'' None laptop" "\<not> cancelMatch ''item1'' None sentLaptop"
    "\<not> cancelMatch ''item1'' None desk"
    by (simp_all add: cancelMatch_def laptop_def sentLaptop_def desk_def)
  have d: "docs mixedInbox = [(0, laptop), (1, sentLaptop), (2, desk)]"
    by (simp add: mixedInbox_def)
  show ?thesis
    using h cancel_transitions_scheduled_only [OF h, of "''item1''" None 3000 4000]
    by (simp add: d m)
qed

section \<open>Retention sweep\<close>

lemma deleteBatch_filter:
  "deleteBatch ps ds = filter (\<lambda>(i, d). i \<notin> fst ` set ps) ds"
proof (induction ps arbitrary: ds)
  case Nil
  then show ?case by simp
next
  case (Cons p ps)
  show ?case
    by (simp add: Cons.IH deleteDoc_def split_beta)
qed

lemma cleanup_docs:
  assumes "distinct (map fst (docs c))"
  shows "docs (fst (cleanupCollection cutoff c)) =
         filter (\<lambda>p. p \<notin> set (take 500 (filter (\<lambda>(i, d). cleanupMatch cutoff d) (docs c))))
                (docs c)"
proof -
  let ?sel = "take 500 (filter (\<lambda>(i, d). cleanupMatch cutoff d) (docs c))"
  have sub: "set ?sel \<subseteq> set (docs c)"
    by (auto dest: in_set_takeD)
  have pt: "(fst p \<notin> fst ` set ?sel) = (p \<notin> set ?sel)" if "p \<in> set (docs c)" for p
  proof -
    obtain i d where p: "p = (i, d)" by (cases p)
    have "(i, d) \<in> set ?sel" if "(i, d') \<in> set ?sel" for d'
    proof -
      have "(i, d') \<in> set (docs c)" using that sub by blast
      then have "d' = d" using distinct_ids_unique [OF assms, of i d d'] \<open>p \<in> set (docs c)\<close> p
        by simp
      then show ?thesis using that by simp
    qed
    then show ?thesis unfolding p by (auto simp: rev_image_eqI)
  qed
  have "docs (fst (cleanupCollection cutoff c)) =
        filter (\<lambda>(i, d). i \<notin> fst ` set ?sel) (docs c)"
    by (simp add: cleanupCollection_def Let_def deleteBatch_filter)
  also have "\<dots> = filter (\<lambda>p. p \<notin> set ?sel) (docs c)"
    by (rule filter_cong [OF refl]) (use pt in \<open>simp add: split_beta\<close>)
  finally show ?thesis .
qed

lemma cleanup_count:
  "snd (cleanupCollection cutoff c) =
     min 500 (length (filter (\<lambda>(i, d). cleanupMatch cutoff d) (docs c)))"
  by (simp add: cleanupCollection_def Let_def min_def)

text \<open>
  Claim C8, amended. A run of the sweeper treats each channel collection by
  \<open>cleanupCollection\<close> with the cutoff 30 days before \<open>now\<close> (lemma \<open>cleanup_shape\<close>):
  one query for the records with status \<open>sent\<close> or \<open>failed\<close> and \<open>processedAt\<close> before
  the cutoff, limited to 500 results, and one batch that deletes what the query returned;
  there is no loop. In a collection with distinct document ids the run therefore deletes
  exactly the first 500 matching records and keeps every other record in place; the
  count is the number of matches capped at 500; when at most 500 records match, all of
  them are deleted; and a record whose status is \<open>scheduled\<close>, \<open>processing\<close> or
  \<open>cancelled\<close> is kept whatever its age.
\<close>

theorem sweep_deletes_one_bounded_batch:
  assumes "distinct (map fst (docs c))"
  shows "docs (fst (cleanupCollection (cutoffDate now) c)) =
           filter (\<lambda>p. p \<notin> set (take 500 (filter (\<lambda>(i, d). cleanupMatch (cutoffDate now) d)
                                              (docs c))))
                  (docs c) \<and>
         snd (cleanupCollection (cutoffDate now) c) =
           min 500 (length (filter (\<lambda>(i, d). cleanupMatch (cutoffDate now) d) (docs c))) \<and>
         (length (filter (\<lambda>(i, d). cleanupMatch (cutoffDate now) d) (docs c)) \<le> 500 \<longrightarrow>
            docs (fst (cleanupCollection (cutoffDate now) c)) =
              filter (\<lambda>(i, d). \<not> ((status d = Sent \<or> status d = Failed) \<and>
                                   (\<exists>t. processedAt d = Some t \<and> t < now - 30 * 86400000)))
                     (docs c)) \<and>
         (\<forall>i d. (i, d) \<in> set (docs c) \<and>
                 (status d = Scheduled \<or> status d = Processing \<or> status d = Cancelled) \<longrightarrow>
                 (i, d) \<in> set (docs (fst (cleanupCollection (cutoffDate now) c))))"
proof -
  let ?m = "\<lambda>(i, d). cleanupMatch (cutoffDate now) d"
  let ?sel = "take 500 (filter ?m (docs c))"
  have docs': "docs (fst (cleanupCollection (cutoffDate now) c)) =
               filter (\<lambda>p. p \<notin> set ?sel) (docs c)"
    by (rule cleanup_docs [OF assms])
  have small: "docs (fst (cleanupCollection (cutoffDate now) c)) =
      filter (\<lambda>(i, d). \<not> ((status d = Sent \<or> status d = Failed) \<and>
                           (\<exists>t. processedAt d = Some t \<and> t < now - 30 * 86400000))) (docs c)"
    if "length (filter ?m (docs c)) \<le> 500"
  proof -
    have "?sel = filter ?m (docs c)" using that by simp
    then have "docs (fst (cleanupCollection (cutoffDate now) c)) =
               filter (\<lambda>p. p \<notin> set (filter ?m (docs c))) (docs c)"
      using docs' by simp
    also have "\<dots> = filter (\<lambda>(i, d). \<not> ((status d = Sent \<or> status d = Failed) \<and>
                           (\<exists>t. processedAt d = Some t \<and> t < now - 30 * 86400000))) (docs c)"
      by (rule filter_cong [OF refl])
         (auto simp: cleanupMatch_def cutoffDate_def split: option.splits)
    finally show ?thesis .
  qed
  have keep: "(i, d) \<in> set (docs (fst (cleanupCollection (cutoffDate now) c)))"
    if "(i, d) \<in> set (docs c)"
      "status d = Scheduled \<or> status d = Processing \<or> status d = Cancelled" for i d
  proof -
    have "\<not> cleanupMatch (cutoffDate now) d" using that(2) by (auto simp: cleanupMatch_def)
    then have "(i, d) \<notin> set ?sel" by (auto dest: in_set_takeD)
    then show ?thesis unfolding docs' using that(1) by simp
  qed
  show ?thesis
  proof (intro conjI allI impI)
    show "docs (fst (cleanupCollection (cutoffDate now) c)) =
          filter (\<lambda>p. p \<notin> set ?sel) (docs c)"
      by (rule docs')
    show "snd (cleanupCollection (cutoffDate now) c) = min 500 (length (filter ?m (docs c)))"
      by (rule cleanup_count)
    show "docs (fst (cleanupCollection (cutoffDate now) c)) =
      filter (\<lambda>(i, d). \<not> ((status d = Sent \<or> status d = Failed) \<and>
                           (\<exists>t. processedAt d = Some t \<and> t < now - 30 * 86400000))) (docs c)"
      if "length (filter ?m (docs c)) \<le> 500"
      using that by (rule small)
    show "(i, d) \<in> set (docs (fst (cleanupCollection (cutoffDate now) c)))"
      if "(i, d) \<in> set (docs c) \<and>
          (status d = Scheduled \<or> status d = Processing \<or> status d = Cancelled)" for i d
      using that keep by blast
  qed
qed

lemma backlog_distinct: "distinct (map fst (docs backlog))"
  by (simp add: backlog_def comp_def)

lemma old_matches: "cleanupMatch (cutoffDate day31) sentLaptop"
  by (simp add: cleanupMatch_def cutoffDate_def day31_def sentLaptop_def laptop_def)

lemma backlog_selected:
  "take 500 (filter (\<lambda>(i, d). cleanupMatch (cutoffDate day31) d) (docs backlog)) =
   map (\<lambda>i. (i, sentLaptop)) [0..<500]"
proof -
  have "filter (\<lambda>(i, d). cleanupMatch (cutoffDate day31) d) (docs backlog) = docs backlog"
    by (simp add: backlog_def old_matches filter_map comp_def)
  then show ?thesis by (simp add: backlog_def take_map)
qed

text \<open>
  Claim C8, as stated (a run deletes every sent or failed record older than 30 days,
  looping until none is left), fails: the email collection \<open>backlog\<close> holds 501 records
  sent at instant 0; the sweep of day 31 leaves the record with id 500 in the collection,
  although it is \<open>sent\<close> and its \<open>processedAt\<close> is before the cutoff.
\<close>

theorem sweep_leaves_backlog_counterexample:
  "status sentLaptop = Sent \<and> processedAt sentLaptop = Some 0 \<and> 0 < day31 - 30 * 86400000 \<and>
   (500, sentLaptop) \<in> set (docs (scheduledEmailNotifications backlogStore)) \<and>
   (500, sentLaptop) \<in>
     set (docs (scheduledEmailNotifications (fst (cleanupOldNotifications day31 backlogStore))))"
proof -
  have s: "scheduledEmailNotifications backlogStore = backlog"
    by (simp add: backlogStore_def)
  have mem: "(500, sentLaptop) \<in> set (docs backlog)"
    by (simp add: backlog_def)
  have "(500, sentLaptop) \<in> set (docs (fst (cleanupCollection (cutoffDate day31) backlog)))"
    using mem by (auto simp: cleanup_docs [OF backlog_distinct] backlog_selected)
  then show ?thesis
    using mem by (simp add: cleanup_shape s sentLaptop_def day31_def)
qed

theorem sweep_deletes_one_bounded_batch_witness:
  "distinct (map fst (docs mixedInbox)) \<and>
   docs (fst (cleanupCollection (cutoffDate day31) mixedInbox)) = [(0, laptop), (2, desk)] \<and>
   snd (cleanupCollection (cutoffDate day31) mixedInbox) = 1"
proof -
  have h: "distinct (map fst (docs mixedInbox))"
    by (simp add: mixedInbox_def)
  have m: "\<not> cleanupMatch (cutoffDate day31) laptop" "cleanupMatch (cutoffDate day31) sentLaptop"
    "\<not> cleanupMatch (cutoffDate day31) desk"
    by (simp_all add: cleanupMatch_def cutoffDate_def day31_def laptop_def sentLaptop_def desk_def)
  have d: "docs mixedInbox = [(0, laptop), (1, sentLaptop), (2, desk)]"
    by (simp add: mixedInbox_def)
  show ?thesis
    using h sweep_deletes_one_bounded_batch [OF h, of day31]
    by (simp add: d m)
qed

section \<open>Validation at scheduling time\<close>





lemma isValidPhoneNumber_examples:
  "isValidPhoneNumber ''+2348035550100''" "isValidPhoneNumber ''+12''"
  "\<not> isValidPhoneNumber ''+1''" "\<not> isValidPhoneNumber ''+0123''"
  "\<not> isValidPhoneNumber ''+1234567890123456''" "\<not> isValidPhoneNumber ''+12a4''"
  by (simp_all add: isValidPhoneNumber_def)




section \<open>Fan-out over the channels\<close>












section \<open>Document ids in reachable stores\<close>

lemma wfCollection_ids:
  "wfCollection c =
     (distinct (map fst (docs c)) \<and> (\<forall>i \<in> set (map fst (docs c)). i < nextId c))"
  by (auto simp: wfCollection_def list_all_iff)

lemma schedule_wf:
  assumes "wfCollection c"
  shows "wfCollection (snd (scheduleNotification noContact msg now data c))"
  using assms
  by (auto simp: scheduleNotification_def add_def wfCollection_ids split: option.splits)

lemma wfCollection_cong:
  assumes "map fst (docs c') = map fst (docs c)" and "nextId c' = nextId c"
      and "wfCollection c"
  shows "wfCollection c'"
  using assms(3) unfolding wfCollection_ids assms(1) assms(2) .

lemma process_ids:
  "map fst (docs (fst (processScheduledNotifications send now clk c))) = map fst (docs c)"
  by (simp add: processScheduledNotifications_def Let_def split_beta processLoop_ids
      claimBatch_ids)

lemma process_wf:
  assumes "wfCollection c"
  shows "wfCollection (fst (processScheduledNotifications send now clk c))"
  using process_ids process_nextId assms by (rule wfCollection_cong)

lemma cancel_wf:
  assumes "wfCollection c"
  shows "wfCollection (snd (cancelChannelNotifications iid uid t c))"
proof (rule wfCollection_cong [OF _ _ assms])
  show "map fst (docs (snd (cancelChannelNotifications iid uid t c))) = map fst (docs c)"
    by (simp add: cancelChannelNotifications_def Let_def cancelBatch_ids)
  show "nextId (snd (cancelChannelNotifications iid uid t c)) = nextId c"
    by (simp add: cancelChannelNotifications_def Let_def)
qed

lemma cleanup_wf:
  assumes "wfCollection c"
  shows "wfCollection (fst (cleanupCollection cutoff c))"
  using assms
  by (auto simp: wfCollection_ids cleanupCollection_def Let_def deleteBatch_filter
      distinct_map_filter)

text \<open>Every store the engine reaches from the empty store has unique document ids, all
  handed out by their collection: the hypothesis on ids made above holds of it.\<close>

lemma run_wfStore:
  assumes "wfStore st"
  shows "wfStore (run evs st)"
proof -
  have "wfCollection (scheduledPushNotifications (run evs st)) \<and>
        wfCollection (scheduledEmailNotifications (run evs st)) \<and>
        wfCollection (scheduledSMSNotifications (run evs st))"
  proof (rule run_preserves
      [where Qp = wfCollection and Qe = wfCollection and Qs = wfCollection])
    show "wfCollection (scheduledPushNotifications st)"
      "wfCollection (scheduledEmailNotifications st)"
      "wfCollection (scheduledSMSNotifications st)"
      using assms by (simp_all add: wfStore_def)
  qed (simp_all add: schedulePushNotification_def scheduleEmailNotification_def
        scheduleSMSNotification_def schedule_wf process_wf cancel_wf cleanup_wf)
  then show ?thesis by (simp add: wfStore_def)
qed

lemma reachable_wfStore: "wfStore (run evs emptyStore)"
  by (rule run_wfStore) (simp add: wfStore_def wfCollection_def emptyStore_def emptyCollection_def)

end
